theory Spec2Isabelle
  imports
    Main
    "HOL-Library.AList"
    "HOL-Library.Char_ord"
    "HOL-Library.List_Lexorder"
    "HOL-Library.Multiset"
    "HOL-Library.Option_ord"
begin

section \<open>The export script \<open>bin/create_hugo_yaml.py\<close>\<close>

text \<open>
  The script has one function, \<open>export_anthology(anthology, outdir, dryrun)\<close>. It creates
  three directories, builds five record collections from the loaded object graph (papers,
  people, volumes, venues, SIGs) and, unless \<open>dryrun\<close> is set, dumps them to YAML files.

  The object graph (\<open>Anthology\<close>, its people index, papers, volumes, venues and SIGs) is
  built by the \<open>anthology\<close> package, which is not part of the script: its accessors are
  fields of the records below. Log output and the progress bar are not modelled.
\<close>

subsection \<open>Python values, dictionaries and exceptions\<close>

datatype py_error =
    KeyError | IndexError | AttributeError | TypeError
  | FileExistsError | FileNotFoundError | NotADirectoryError | IsADirectoryError

text \<open>
  A Python \<open>dict\<close> is an association list in insertion order: \<open>d[k] = v\<close> is
  \<open>AList.update\<close> (in place for a key that is there, appended otherwise), \<open>k in d\<close> and
  \<open>d[k]\<close> read \<open>map_of\<close>, \<open>del d[k]\<close> is \<open>py_del\<close>.
\<close>

type_synonym ('k, 'v) dict = "('k \<times> 'v) list"

text \<open>
  The values stored under the keys of a record. \<open>'n\<close> is the type of person names
  (objects of the object graph). \<open>VSet\<close> is a Python \<open>set\<close> of strings, listed in its
  iteration order; \<open>VCounts\<close> is a list of two-element lists \<open>[string, count]\<close>;
  \<open>VByYear\<close> is a dict from a year to a list of volume ids.
\<close>

datatype 'n val =
    VStr string
  | VNames "'n list"
  | VStrs "string list"
  | VSet "string list"
  | VCounts "(string \<times> int) list"
  | VByYear "(string, string list) dict"

type_synonym 'n fields = "(string, 'n val) dict"

definition py_getitem :: "'k \<Rightarrow> ('k, 'v) dict \<Rightarrow> py_error + 'v" where
  "py_getitem k d = (case map_of d k of None \<Rightarrow> Inl KeyError | Some v \<Rightarrow> Inr v)"

definition py_del :: "'k \<Rightarrow> ('k, 'v) dict \<Rightarrow> py_error + ('k, 'v) dict" where
  "py_del k d = (if map_of d k = None then Inl KeyError else Inr (AList.delete k d))"

text \<open>
  \<open>idx[k1][k2] = v\<close> on a \<open>defaultdict(dict)\<close>: a missing bucket \<open>k1\<close> is created empty
  by the read \<open>idx[k1]\<close>.
\<close>

definition dd_set ::
  "'a \<Rightarrow> 'b \<Rightarrow> 'v \<Rightarrow> ('a, ('b, 'v) dict) dict \<Rightarrow> ('a, ('b, 'v) dict) dict" where
  "dd_set k1 k2 v idx =
     AList.update k1 (AList.update k2 v (case map_of idx k1 of None \<Rightarrow> [] | Some b \<Rightarrow> b)) idx"

text \<open>
  \<open>sorted(xs, key=f, reverse=True)\<close>: CPython reverses the list, sorts it stably in
  ascending order and reverses the result, so that elements with equal keys keep their
  original order.
\<close>

definition sorted_desc :: "('a \<Rightarrow> 'k::linorder) \<Rightarrow> 'a list \<Rightarrow> 'a list" where
  "sorted_desc f xs = rev (sort_key f (rev xs))"

text \<open>
  Iterating a value as strings (\<open>sorted(v)\<close>, \<open>filter(f, v)\<close>): the object graph stores a
  set or a list of strings there. Any other shape is outside the object graph's types and
  is reported as \<open>TypeError\<close>.
\<close>

definition iter_strs :: "'n val \<Rightarrow> py_error + string list" where
  "iter_strs v = (case v of VStrs xs \<Rightarrow> Inr xs | VSet xs \<Rightarrow> Inr xs | _ \<Rightarrow> Inl TypeError)"

subsection \<open>The object graph\<close>

text \<open>
  A paper: \<open>full_id\<close> and \<open>top_level_id\<close> are its attributes, \<open>as_dict\<close> is what
  \<open>paper.as_dict()\<close> returns (a dictionary of its own: the script's changes to it are not
  changes of the paper), \<open>title_html\<close>, \<open>booktitle_html\<close> and \<open>abstract_html\<close> are what
  \<open>get_title("html")\<close>, \<open>get_booktitle("html")\<close> and \<open>get_abstract("html")\<close> return, and
  \<open>year\<close> is what \<open>paper.get("year")\<close> returns (\<open>None\<close> for a paper without a year).
\<close>

record 'n paper =
  full_id :: string
  top_level_id :: string
  as_dict :: "'n fields"
  title_html :: string
  booktitle_html :: string
  abstract_html :: string
  year :: "string option"

text \<open>
  A volume: \<open>attrib\<close> is the attribute dictionary itself (\<open>volume.attrib\<close>: the script
  works on this very object), \<open>vol_title_html\<close> is what \<open>volume.get_title("html")\<close> returns.
\<close>

record 'n volume =
  vol_full_id :: string
  attrib :: "'n fields"
  paper_ids :: "string list"
  vol_title_html :: string

record 'y sig =
  sig_name :: string
  sig_slug :: string
  sig_url :: string
  sig_volumes_by_year :: "(string, string list) dict"
  sig_years :: "'y list"

text \<open>
  The people index \<open>anthology.people\<close>. \<open>get_slug\<close> is partial: a name without a
  registered slug raises \<open>KeyError\<close>. \<open>get_papers\<close>, \<open>get_coauthors\<close> and \<open>get_venues\<close>
  are the calls with \<open>include_variants=True\<close>; \<open>get_venues\<close> is given \<open>anthology.venues\<close>
  and its result is listed as the \<open>items()\<close> of the returned dictionary.
\<close>

record ('n, 'v) person_index =
  names :: "'n list"
  name_as_dict :: "'n \<Rightarrow> 'n fields"
  get_slug :: "'n \<Rightarrow> string option"
  is_canonical :: "'n \<Rightarrow> bool"
  get_papers :: "'n \<Rightarrow> string list"
  get_coauthors :: "'n \<Rightarrow> ('n \<times> int) list"
  get_venues :: "'v \<Rightarrow> 'n \<Rightarrow> (string \<times> int) list"
  has_variants :: "'n \<Rightarrow> bool"
  get_registered_variants :: "'n \<Rightarrow> 'n list"
  get_canonical_variant :: "'n \<Rightarrow> 'n"

text \<open>
  \<open>py_str\<close> is Python's \<open>str\<close> on the year values of the SIGs, whose type \<open>'y\<close> the
  script does not fix.
\<close>

record ('n, 'y) anthology =
  papers :: "(string, 'n paper) dict"
  people :: "('n, (string, 'n fields) dict) person_index"
  volumes :: "(string, 'n volume) dict"
  venues :: "(string, 'n fields) dict"
  sigs :: "(string, 'y sig) dict"
  py_str :: "'y \<Rightarrow> string"

subsection \<open>The file system\<close>

text \<open>
  The directories that exist and the files with their contents, each under its
  normalised path. The content of a YAML file is the mapping that was dumped to it.

  A path names a directory or file through its components: the path is split at the
  slashes, and empty components and \<open>.\<close> are dropped, so that \<open>out/\<close>, \<open>out//\<close> and
  \<open>./out\<close> are the directory \<open>out\<close>, and \<open>out//papers\<close> is \<open>out/papers\<close>. A path is
  absolute when it starts with a slash. The normal form of the working directory is the
  empty string and that of the root is \<open>/\<close>; both always exist. Components \<open>..\<close>,
  links and permissions are not modelled.
\<close>

type_synonym 'n yaml_doc = "(string, 'n fields) dict"

record 'n filesys =
  dirs :: "string set"
  files :: "string \<rightharpoonup> 'n yaml_doc"

fun split_path :: "string \<Rightarrow> string list" where
  "split_path [] = [[]]"
| "split_path (c # cs) =
     (if c = CHR ''/'' then [] # split_path cs
      else (case split_path cs of [] \<Rightarrow> [[c]] | w # ws \<Rightarrow> (c # w) # ws))"

definition components :: "string \<Rightarrow> string list" where
  "components p = filter (\<lambda>w. w \<noteq> [] \<and> w \<noteq> ''.'') (split_path p)"

fun join_path :: "string list \<Rightarrow> string" where
  "join_path [] = []"
| "join_path [w] = w"
| "join_path (w # ws) = w @ ''/'' @ join_path ws"

definition is_abs :: "string \<Rightarrow> bool" where
  "is_abs p = (case p of [] \<Rightarrow> False | c # cs \<Rightarrow> c = CHR ''/'')"

definition rooted :: "bool \<Rightarrow> string list \<Rightarrow> string" where
  "rooted ab ws = (if ab then ''/'' @ join_path ws else join_path ws)"

definition norm_path :: "string \<Rightarrow> string" where
  "norm_path p = rooted (is_abs p) (components p)"

text \<open>The directory that holds the last component of a path.\<close>

definition dirname :: "string \<Rightarrow> string" where
  "dirname p = rooted (is_abs p) (butlast (components p))"

text \<open>A normalised path is a directory.\<close>

definition dir_exists :: "'n filesys \<Rightarrow> string \<Rightarrow> bool" where
  "dir_exists fs q = (q = [] \<or> q = ''/'' \<or> q \<in> dirs fs)"

text \<open>\<open>os.path.isdir(p)\<close>; it is false for the empty path.\<close>

definition os_path_isdir :: "'n filesys \<Rightarrow> string \<Rightarrow> bool" where
  "os_path_isdir fs p = (p \<noteq> [] \<and> dir_exists fs (norm_path p))"

definition parent_check :: "'n filesys \<Rightarrow> string \<Rightarrow> py_error option" where
  "parent_check fs p =
     (let d = dirname p in
      if dir_exists fs d then None
      else if files fs d \<noteq> None then Some NotADirectoryError
      else Some FileNotFoundError)"

text \<open>\<open>os.mkdir(p)\<close>\<close>

definition os_mkdir :: "string \<Rightarrow> 'n filesys \<Rightarrow> py_error + 'n filesys" where
  "os_mkdir p fs =
     (let q = norm_path p in
      if p = [] then Inl FileNotFoundError
      else if dir_exists fs q \<or> files fs q \<noteq> None then Inl FileExistsError
      else (case parent_check fs p of
              Some e \<Rightarrow> Inl e
            | None \<Rightarrow> Inr (fs\<lparr>dirs := insert q (dirs fs)\<rparr>)))"

text \<open>\<open>with open(p, "w") as f: yaml.dump(doc, stream=f)\<close>\<close>

definition write_yaml :: "string \<Rightarrow> 'n yaml_doc \<Rightarrow> 'n filesys \<Rightarrow> py_error + 'n filesys" where
  "write_yaml p doc fs =
     (let q = norm_path p in
      if p = [] then Inl FileNotFoundError
      else if dir_exists fs q then Inl IsADirectoryError
      else (case parent_check fs p of
              Some e \<Rightarrow> Inl e
            | None \<Rightarrow> Inr (fs\<lparr>files := (files fs)(q \<mapsto> doc)\<rparr>)))"

subsection \<open>Creating the directories (lines 45--49)\<close>

fun make_dirs :: "string \<Rightarrow> string list \<Rightarrow> 'n filesys \<Rightarrow> 'n filesys \<times> py_error option" where
  "make_dirs outdir [] fs = (fs, None)"
| "make_dirs outdir (subdir # rest) fs =
     (let target_dir = outdir @ ''/'' @ subdir in
      if \<not> os_path_isdir fs target_dir then
        (case os_mkdir target_dir fs of
           Inl e \<Rightarrow> (fs, Some e)
         | Inr fs' \<Rightarrow> make_dirs outdir rest fs')
      else make_dirs outdir rest fs)"

subsection \<open>The paper index (lines 51--72)\<close>

text \<open>The list comprehension \<open>[anthology.people.get_slug(name) for name in ns]\<close>.\<close>

fun get_slugs :: "('n, 'v) person_index \<Rightarrow> 'n list \<Rightarrow> py_error + string list" where
  "get_slugs pi [] = Inr []"
| "get_slugs pi (n # ns) =
     (case get_slug pi n of
        None \<Rightarrow> Inl KeyError
      | Some s \<Rightarrow> (case get_slugs pi ns of Inl e \<Rightarrow> Inl e | Inr ss \<Rightarrow> Inr (s # ss)))"

text \<open>
  \<open>if k in data: data[k] = [get_slug(name) for name in data[k]]\<close>. The object graph
  stores a list of names under \<open>author\<close> and \<open>editor\<close>; any other shape is reported as
  \<open>TypeError\<close>.
\<close>

definition resolve_names ::
  "('n, 'v) person_index \<Rightarrow> string \<Rightarrow> 'n fields \<Rightarrow> py_error + 'n fields" where
  "resolve_names pi k data =
     (case map_of data k of
        None \<Rightarrow> Inr data
      | Some (VNames ns) \<Rightarrow>
          (case get_slugs pi ns of
             Inl e \<Rightarrow> Inl e
           | Inr ss \<Rightarrow> Inr (AList.update k (VStrs ss) data))
      | Some _ \<Rightarrow> Inl TypeError)"

text \<open>
  Lines 58--60 and 61--63, \<open>if raw in data: data[html] = v; del data[raw]\<close>.
\<close>

definition move_html :: "string \<Rightarrow> string \<Rightarrow> string \<Rightarrow> 'n fields \<Rightarrow> 'n fields" where
  "move_html raw html v data =
     (if map_of data raw \<noteq> None
      then AList.delete raw (AList.update html (VStr v) data)
      else data)"

definition paper_record :: "('n, 'y) anthology \<Rightarrow> 'n paper \<Rightarrow> py_error + 'n fields" where
  "paper_record anth p =
     (let data = as_dict p;
          data = AList.update ''title_html'' (VStr (title_html p)) data
      in case py_del ''xml_title'' data of
           Inl e \<Rightarrow> Inl e
         | Inr data \<Rightarrow>
            (let data = move_html ''xml_booktitle'' ''booktitle_html'' (booktitle_html p) data;
                 data = move_html ''xml_abstract'' ''abstract_html'' (abstract_html p) data
             in case resolve_names (people anth) ''author'' data of
                  Inl e \<Rightarrow> Inl e
                | Inr data \<Rightarrow> resolve_names (people anth) ''editor'' data))"

fun papers_loop ::
  "('n, 'y) anthology \<Rightarrow> (string, 'n paper) dict \<Rightarrow> (string, 'n yaml_doc) dict
     \<Rightarrow> py_error + (string, 'n yaml_doc) dict" where
  "papers_loop anth [] idx = Inr idx"
| "papers_loop anth ((pid, p) # rest) idx =
     (case paper_record anth p of
        Inl e \<Rightarrow> Inl e
      | Inr data \<Rightarrow> papers_loop anth rest (dd_set (top_level_id p) (full_id p) data idx))"

definition build_papers :: "('n, 'y) anthology \<Rightarrow> py_error + (string, 'n yaml_doc) dict" where
  "build_papers anth = papers_loop anth (papers anth) []"

subsection \<open>The people index (lines 74--116)\<close>

text \<open>
  The key of the sort of a person's papers, \<open>anthology.papers.get(p).get("year")\<close>:
  \<open>anthology.papers.get(p)\<close> is \<open>None\<close> for an id that is not a key of the paper
  collection, and \<open>None.get\<close> raises \<open>AttributeError\<close>.
\<close>

definition paper_year :: "('n, 'y) anthology \<Rightarrow> string \<Rightarrow> py_error + string option" where
  "paper_year anth p =
     (case map_of (papers anth) p of None \<Rightarrow> Inl AttributeError | Some pp \<Rightarrow> Inr (year pp))"

definition year_key :: "('n, 'y) anthology \<Rightarrow> string \<Rightarrow> string option" where
  "year_key anth p = (case paper_year anth p of Inl e \<Rightarrow> None | Inr y \<Rightarrow> y)"

text \<open>
  \<open>sorted(ps, key=..., reverse=True)\<close> computes every key first, then compares. With two
  or more elements every key takes part in a comparison, and comparing \<open>None\<close> raises
  \<open>TypeError\<close>; a list of at most one element is not compared at all.
\<close>

definition sorted_papers :: "('n, 'y) anthology \<Rightarrow> string list \<Rightarrow> py_error + string list" where
  "sorted_papers anth ps =
     (if \<exists>p \<in> set ps. map_of (papers anth) p = None then Inl AttributeError
      else if 2 \<le> length ps \<and> (\<exists>p \<in> set ps. year_key anth p = None) then Inl TypeError
      else Inr (sorted_desc (year_key anth) ps))"

text \<open>\<open>[[get_slug(co_name), count] for (co_name, count) in get_coauthors(name)]\<close>\<close>

fun coauthor_pairs ::
  "('n, 'v) person_index \<Rightarrow> ('n \<times> int) list \<Rightarrow> py_error + (string \<times> int) list" where
  "coauthor_pairs pi [] = Inr []"
| "coauthor_pairs pi ((co_name, cnt) # rest) =
     (case get_slug pi co_name of
        None \<Rightarrow> Inl KeyError
      | Some s \<Rightarrow>
          (case coauthor_pairs pi rest of Inl e \<Rightarrow> Inl e | Inr cs \<Rightarrow> Inr ((s, cnt) # cs)))"

definition canonical_fields ::
  "('n, 'y) anthology \<Rightarrow> 'n \<Rightarrow> 'n fields \<Rightarrow> py_error + 'n fields" where
  "canonical_fields anth name data =
     (let pi = people anth in
      case sorted_papers anth (get_papers pi name) of
        Inl e \<Rightarrow> Inl e
      | Inr ps \<Rightarrow>
         (let data = AList.update ''papers'' (VStrs ps) data in
          case coauthor_pairs pi (get_coauthors pi name) of
            Inl e \<Rightarrow> Inl e
          | Inr cs \<Rightarrow>
             (let data = AList.update ''coauthors'' (VCounts (sorted_desc snd cs)) data;
                  data = AList.update ''venues''
                           (VCounts (sorted_desc snd (get_venues pi (venues anth) name))) data
              in if has_variants pi name then
                   (case get_slugs pi (get_registered_variants pi name) of
                      Inl e \<Rightarrow> Inl e
                    | Inr vs \<Rightarrow> Inr (AList.update ''variant_entries'' (VStrs vs) data))
                 else Inr data)))"

definition variant_fields ::
  "('n, 'y) anthology \<Rightarrow> 'n \<Rightarrow> 'n fields \<Rightarrow> py_error + 'n fields" where
  "variant_fields anth name data =
     (case get_slug (people anth) (get_canonical_variant (people anth) name) of
        None \<Rightarrow> Inl KeyError
      | Some s \<Rightarrow> Inr (AList.update ''canonical_entry'' (VStr s) data))"

text \<open>
  The record of one name (lines 78--115), with its slug. \<open>name.as_dict()\<close> returns a
  dictionary of its own.
\<close>

definition person_record ::
  "('n, 'y) anthology \<Rightarrow> 'n \<Rightarrow> py_error + (string \<times> 'n fields)" where
  "person_record anth name =
     (let data = name_as_dict (people anth) name in
      case get_slug (people anth) name of
        None \<Rightarrow> Inl KeyError
      | Some slug \<Rightarrow>
         (let data = AList.update ''slug'' (VStr slug) data in
          case (if is_canonical (people anth) name
                then canonical_fields anth name data
                else variant_fields anth name data) of
            Inl e \<Rightarrow> Inl e
          | Inr data \<Rightarrow> Inr (slug, data)))"

text \<open>
  Line 116, \<open>people[slug[0]][slug] = data\<close>: \<open>slug[0]\<close> of the empty string raises
  \<open>IndexError\<close>.
\<close>

fun people_loop ::
  "('n, 'y) anthology \<Rightarrow> 'n list \<Rightarrow> (string, 'n yaml_doc) dict
     \<Rightarrow> py_error + (string, 'n yaml_doc) dict" where
  "people_loop anth [] idx = Inr idx"
| "people_loop anth (name # rest) idx =
     (case person_record anth name of
        Inl e \<Rightarrow> Inl e
      | Inr (slug, data) \<Rightarrow>
          (case slug of
             [] \<Rightarrow> Inl IndexError
           | c # cs \<Rightarrow> people_loop anth rest (dd_set [c] slug data idx)))"

definition build_people :: "('n, 'y) anthology \<Rightarrow> py_error + (string, 'n yaml_doc) dict" where
  "build_people anth = people_loop anth (names (people anth)) []"

subsection \<open>The volume index (lines 118--136)\<close>

text \<open>
  \<open>data = volume.attrib\<close> binds the volume's own dictionary, so every assignment and
  deletion below changes the volume. \<open>volume_export\<close> returns the volume as the loop body
  leaves it, with the exception it raised, if any.
\<close>

text \<open>Lines 125--126, \<open>if k in data: del data[k]\<close>.\<close>

definition del_if_in :: "'k \<Rightarrow> ('k, 'v) dict \<Rightarrow> ('k, 'v) dict" where
  "del_if_in k data = (if map_of data k \<noteq> None then AList.delete k data else data)"

definition volume_export ::
  "('n, 'y) anthology \<Rightarrow> 'n volume \<Rightarrow> 'n volume \<times> py_error option" where
  "volume_export anth v =
     (let data = AList.update ''title_html'' (VStr (vol_title_html v)) (attrib v)
      in case py_del ''xml_title'' data of
           Inl e \<Rightarrow> (v\<lparr>attrib := data\<rparr>, Some e)
         | Inr data \<Rightarrow>
            (let data = del_if_in ''xml_abstract'' data;
                 data = AList.update ''papers'' (VStrs (paper_ids v)) data
             in case resolve_names (people anth) ''author'' data of
                  Inl e \<Rightarrow> (v\<lparr>attrib := data\<rparr>, Some e)
                | Inr data \<Rightarrow>
                   (case resolve_names (people anth) ''editor'' data of
                      Inl e \<Rightarrow> (v\<lparr>attrib := data\<rparr>, Some e)
                    | Inr data \<Rightarrow> (v\<lparr>attrib := data\<rparr>, None))))"

text \<open>
  The loop returns the volume collection as it is when the loop ends or raises, and the
  index built (\<open>volumes[volume.full_id] = data\<close>).
\<close>

fun volumes_loop ::
  "('n, 'y) anthology \<Rightarrow> (string, 'n volume) dict \<Rightarrow> 'n yaml_doc
     \<Rightarrow> (string, 'n volume) dict \<times> (py_error + 'n yaml_doc)" where
  "volumes_loop anth [] idx = ([], Inr idx)"
| "volumes_loop anth ((vid, v) # rest) idx =
     (case volume_export anth v of
        (v', Some e) \<Rightarrow> ((vid, v') # rest, Inl e)
      | (v', None) \<Rightarrow>
          (case volumes_loop anth rest (AList.update (vol_full_id v') (attrib v') idx) of
             (rest', r) \<Rightarrow> ((vid, v') # rest', r)))"

definition build_volumes ::
  "('n, 'y) anthology \<Rightarrow> (string, 'n volume) dict \<times> (py_error + 'n yaml_doc)" where
  "build_volumes anth = volumes_loop anth (volumes anth) []"

subsection \<open>The venue index (lines 138--148)\<close>

text \<open>\<open>volumes[k]["year"] == year\<close>, on the volume index just built.\<close>

definition volume_year_is :: "'n yaml_doc \<Rightarrow> string \<Rightarrow> string \<Rightarrow> py_error + bool" where
  "volume_year_is vols yr k =
     (case py_getitem k vols of
        Inl e \<Rightarrow> Inl e
      | Inr d \<Rightarrow> (case py_getitem ''year'' d of Inl e \<Rightarrow> Inl e | Inr y \<Rightarrow> Inr (y = VStr yr)))"

fun filter_year :: "'n yaml_doc \<Rightarrow> string \<Rightarrow> string list \<Rightarrow> py_error + string list" where
  "filter_year vols yr [] = Inr []"
| "filter_year vols yr (k # ks) =
     (case volume_year_is vols yr k of
        Inl e \<Rightarrow> Inl e
      | Inr b \<Rightarrow>
          (case filter_year vols yr ks of
             Inl e \<Rightarrow> Inl e
           | Inr r \<Rightarrow> Inr (if b then k # r else r)))"

text \<open>
  The dict comprehension of lines 142--145 over the sorted years: \<open>data["volumes"]\<close> is
  read once for each year.
\<close>

fun by_year_loop ::
  "'n yaml_doc \<Rightarrow> 'n fields \<Rightarrow> string list \<Rightarrow> (string, string list) dict
     \<Rightarrow> py_error + (string, string list) dict" where
  "by_year_loop vols data [] acc = Inr acc"
| "by_year_loop vols data (yr # yrs) acc =
     (case py_getitem ''volumes'' data of
        Inl e \<Rightarrow> Inl e
      | Inr vv \<Rightarrow>
          (case iter_strs vv of
             Inl e \<Rightarrow> Inl e
           | Inr ks \<Rightarrow>
               (case filter_year vols yr ks of
                  Inl e \<Rightarrow> Inl e
                | Inr r \<Rightarrow> by_year_loop vols data yrs (AList.update yr (sort r) acc))))"

text \<open>\<open>data = data.copy()\<close>: the changes are made to a copy of the venue's dictionary.\<close>

definition venue_record :: "'n yaml_doc \<Rightarrow> 'n fields \<Rightarrow> py_error + 'n fields" where
  "venue_record vols data =
     (case py_getitem ''years'' data of
        Inl e \<Rightarrow> Inl e
      | Inr yv \<Rightarrow>
          (case iter_strs yv of
             Inl e \<Rightarrow> Inl e
           | Inr ys \<Rightarrow>
               (case by_year_loop vols data (sort ys) [] of
                  Inl e \<Rightarrow> Inl e
                | Inr by_year \<Rightarrow>
                    (let data = AList.update ''volumes_by_year'' (VByYear by_year) data;
                         data = AList.update ''years'' (VStrs (sort ys)) data
                     in py_del ''volumes'' data))))"

fun venues_loop ::
  "'n yaml_doc \<Rightarrow> (string, 'n fields) dict \<Rightarrow> 'n yaml_doc \<Rightarrow> py_error + 'n yaml_doc" where
  "venues_loop vols [] idx = Inr idx"
| "venues_loop vols ((acronym, data) # rest) idx =
     (case venue_record vols data of
        Inl e \<Rightarrow> Inl e
      | Inr data' \<Rightarrow> venues_loop vols rest (AList.update acronym data' idx))"

definition build_venues :: "('n, 'y) anthology \<Rightarrow> 'n yaml_doc \<Rightarrow> py_error + 'n yaml_doc" where
  "build_venues anth vols = venues_loop vols (venues anth) []"

subsection \<open>The SIG index (lines 150--160)\<close>

definition sig_record :: "('y \<Rightarrow> string) \<Rightarrow> 'y sig \<Rightarrow> 'n fields" where
  "sig_record str s =
     [(''name'', VStr (sig_name s)),
      (''slug'', VStr (sig_slug s)),
      (''url'', VStr (sig_url s)),
      (''volumes_by_year'', VByYear (sig_volumes_by_year s)),
      (''years'', VStrs (sort (map str (sig_years s))))]"

fun sigs_loop :: "('y \<Rightarrow> string) \<Rightarrow> (string, 'y sig) dict \<Rightarrow> 'n yaml_doc \<Rightarrow> 'n yaml_doc" where
  "sigs_loop str [] idx = idx"
| "sigs_loop str ((acronym, s) # rest) idx =
     sigs_loop str rest (AList.update acronym (sig_record str s) idx)"

definition build_sigs :: "('n, 'y) anthology \<Rightarrow> 'n yaml_doc" where
  "build_sigs anth = sigs_loop (py_str anth) (sigs anth) []"

subsection \<open>Writing the files (lines 162--186)\<close>

record 'n records =
  r_papers :: "(string, 'n yaml_doc) dict"
  r_people :: "(string, 'n yaml_doc) dict"
  r_volumes :: "'n yaml_doc"
  r_venues :: "'n yaml_doc"
  r_sigs :: "'n yaml_doc"

text \<open>One file for each key of a grouped index: \<open>{outdir}/{sub}/{key}.yaml\<close>.\<close>

fun dump_groups ::
  "string \<Rightarrow> string \<Rightarrow> (string, 'n yaml_doc) dict \<Rightarrow> 'n filesys \<Rightarrow> 'n filesys \<times> py_error option"
  where
  "dump_groups outdir sub [] fs = (fs, None)"
| "dump_groups outdir sub ((k, doc) # rest) fs =
     (case write_yaml (outdir @ ''/'' @ sub @ ''/'' @ k @ ''.yaml'') doc fs of
        Inl e \<Rightarrow> (fs, Some e)
      | Inr fs' \<Rightarrow> dump_groups outdir sub rest fs')"

definition dump_all :: "string \<Rightarrow> 'n records \<Rightarrow> 'n filesys \<Rightarrow> 'n filesys \<times> py_error option" where
  "dump_all outdir recs fs =
     (case dump_groups outdir ''papers'' (r_papers recs) fs of
        (fs, Some e) \<Rightarrow> (fs, Some e)
      | (fs, None) \<Rightarrow>
     (case write_yaml (outdir @ ''/volumes.yaml'') (r_volumes recs) fs of
        Inl e \<Rightarrow> (fs, Some e)
      | Inr fs \<Rightarrow>
     (case write_yaml (outdir @ ''/venues.yaml'') (r_venues recs) fs of
        Inl e \<Rightarrow> (fs, Some e)
      | Inr fs \<Rightarrow>
     (case write_yaml (outdir @ ''/sigs.yaml'') (r_sigs recs) fs of
        Inl e \<Rightarrow> (fs, Some e)
      | Inr fs \<Rightarrow> dump_groups outdir ''people'' (r_people recs) fs))))"

subsection \<open>\<open>export_anthology\<close>\<close>

text \<open>
  The outcome of a call: the object graph and the file system as the call leaves them, and
  either the exception that ended the call or the five record collections it built.
\<close>

record ('n, 'y) outcome =
  graph :: "('n, 'y) anthology"
  disk :: "'n filesys"
  result :: "py_error + 'n records"

definition export_anthology ::
  "('n, 'y) anthology \<Rightarrow> string \<Rightarrow> bool \<Rightarrow> 'n filesys \<Rightarrow> ('n, 'y) outcome" where
  "export_anthology anthology outdir dryrun fs =
     (case make_dirs outdir ['''', ''papers'', ''people''] fs of
        (fs, Some e) \<Rightarrow> \<lparr>graph = anthology, disk = fs, result = Inl e\<rparr>
      | (fs, None) \<Rightarrow>
     (case build_papers anthology of
        Inl e \<Rightarrow> \<lparr>graph = anthology, disk = fs, result = Inl e\<rparr>
      | Inr papers_idx \<Rightarrow>
     (case build_people anthology of
        Inl e \<Rightarrow> \<lparr>graph = anthology, disk = fs, result = Inl e\<rparr>
      | Inr people_idx \<Rightarrow>
     (case build_volumes anthology of
        (vs, Inl e) \<Rightarrow> \<lparr>graph = anthology\<lparr>volumes := vs\<rparr>, disk = fs, result = Inl e\<rparr>
      | (vs, Inr volumes_idx) \<Rightarrow>
     (let anthology = anthology\<lparr>volumes := vs\<rparr> in
      case build_venues anthology volumes_idx of
        Inl e \<Rightarrow> \<lparr>graph = anthology, disk = fs, result = Inl e\<rparr>
      | Inr venues_idx \<Rightarrow>
     (let recs = \<lparr>r_papers = papers_idx, r_people = people_idx, r_volumes = volumes_idx,
                  r_venues = venues_idx, r_sigs = build_sigs anthology\<rparr>
      in if \<not> dryrun then
           (case dump_all outdir recs fs of
              (fs, Some e) \<Rightarrow> \<lparr>graph = anthology, disk = fs, result = Inl e\<rparr>
            | (fs, None) \<Rightarrow> \<lparr>graph = anthology, disk = fs, result = Inr recs\<rparr>)
         else \<lparr>graph = anthology, disk = fs, result = Inr recs\<rparr>))))))"

subsection \<open>A small anthology\<close>

text \<open>
  One person with two recorded names, three papers in two groups, three volumes, one venue
  and one SIG. Names are strings here, and SIG years are strings already.
\<close>

definition ex_people :: "(string, (string, string fields) dict) person_index" where
  "ex_people =
     \<lparr>names = [''Jane Doe'', ''J. Doe''],
      name_as_dict = (\<lambda>n. [(''full'', VStr n)]),
      get_slug = map_of [(''Jane Doe'', ''jane-doe''), (''J. Doe'', ''j-doe'')],
      is_canonical = (\<lambda>n. n = ''Jane Doe''),
      get_papers = (\<lambda>n. [''2019.emnlp-main.7'', ''2020.acl-main.1'', ''2020.acl-main.2'']),
      get_coauthors = (\<lambda>n. []),
      get_venues = (\<lambda>vs n. [(''EMNLP'', 1), (''ACL'', 2)]),
      has_variants = (\<lambda>n. n = ''Jane Doe''),
      get_registered_variants = (\<lambda>n. if n = ''Jane Doe'' then [''J. Doe''] else []),
      get_canonical_variant = (\<lambda>n. ''Jane Doe'')\<rparr>"

definition ex_paper :: "string \<Rightarrow> string \<Rightarrow> string \<Rightarrow> string \<Rightarrow> string paper" where
  "ex_paper fid grp yr author =
     \<lparr>full_id = fid, top_level_id = grp,
      as_dict = [(''title'', VStr ''Example Paper''), (''xml_title'', VStr ''<b>Example</b> Paper''),
                 (''xml_abstract'', VStr ''<i>An</i> abstract''),
                 (''author'', VNames [author]), (''year'', VStr yr)],
      title_html = ''<b>Example</b> Paper'', booktitle_html = '''',
      abstract_html = ''<i>An</i> abstract'', year = Some yr\<rparr>"

definition ex_papers :: "(string, string paper) dict" where
  "ex_papers =
     [(''2020.acl-main.1'', ex_paper ''2020.acl-main.1'' ''2020.acl'' ''2020'' ''Jane Doe''),
      (''2020.acl-main.2'', ex_paper ''2020.acl-main.2'' ''2020.acl'' ''2020'' ''J. Doe''),
      (''2019.emnlp-main.7'', ex_paper ''2019.emnlp-main.7'' ''2019.emnlp'' ''2019'' ''Jane Doe'')]"

definition ex_volume :: "string \<Rightarrow> string \<Rightarrow> string list \<Rightarrow> string volume" where
  "ex_volume fid yr pids =
     \<lparr>vol_full_id = fid,
      attrib = [(''title'', VStr ''Proceedings''), (''xml_title'', VStr ''<b>Proceedings</b>''),
                (''xml_abstract'', VStr ''<i>Preface</i>''), (''year'', VStr yr),
                (''editor'', VNames [''Jane Doe''])],
      paper_ids = pids,
      vol_title_html = ''<b>Proceedings</b>''\<rparr>"

definition ex_volumes :: "(string, string volume) dict" where
  "ex_volumes =
     [(''2020.acl-main'',
       ex_volume ''2020.acl-main'' ''2020'' [''2020.acl-main.1'', ''2020.acl-main.2'']),
      (''2019.acl-main'', ex_volume ''2019.acl-main'' ''2019'' []),
      (''2020.acl-demos'', ex_volume ''2020.acl-demos'' ''2020'' [])]"

definition ex_venue :: "string fields" where
  "ex_venue =
     [(''name'', VStr ''ACL''), (''years'', VSet [''2020'', ''2019'']),
      (''volumes'', VStrs [''2020.acl-main'', ''2019.acl-main'', ''2020.acl-demos''])]"

definition ex_sig :: "string sig" where
  "ex_sig =
     \<lparr>sig_name = ''SIGDAT'', sig_slug = ''sigdat'', sig_url = ''https://sigdat.org'',
      sig_volumes_by_year = [(''2019'', [''2019.emnlp-main''])], sig_years = [''2019'']\<rparr>"

definition ex_anthology :: "(string, string) anthology" where
  "ex_anthology =
     \<lparr>papers = ex_papers, people = ex_people, volumes = ex_volumes,
      venues = [(''ACL'', ex_venue)], sigs = [(''SIGDAT'', ex_sig)], py_str = (\<lambda>y. y)\<rparr>"

text \<open>An empty working directory.\<close>

definition ex_fs :: "string filesys" where
  "ex_fs = \<lparr>dirs = {}, files = Map.empty\<rparr>"

text \<open>The record collections that the export builds from it.\<close>

definition ex_paper_record :: "string \<Rightarrow> string \<Rightarrow> string fields" where
  "ex_paper_record slug yr =
     [(''title'', VStr ''Example Paper''), (''author'', VStrs [slug]), (''year'', VStr yr),
      (''title_html'', VStr ''<b>Example</b> Paper''),
      (''abstract_html'', VStr ''<i>An</i> abstract'')]"

definition ex_volume_record :: "string \<Rightarrow> string list \<Rightarrow> string fields" where
  "ex_volume_record yr pids =
     [(''title'', VStr ''Proceedings''), (''year'', VStr yr),
      (''editor'', VStrs [''jane-doe'']), (''title_html'', VStr ''<b>Proceedings</b>''),
      (''papers'', VStrs pids)]"

definition ex_venue_record :: "string fields" where
  "ex_venue_record =
     [(''name'', VStr ''ACL''), (''years'', VStrs [''2019'', ''2020'']),
      (''volumes_by_year'',
       VByYear [(''2019'', [''2019.acl-main'']), (''2020'', [''2020.acl-demos'', ''2020.acl-main''])])]"

definition ex_jane_record :: "string fields" where
  "ex_jane_record =
     [(''full'', VStr ''Jane Doe''), (''slug'', VStr ''jane-doe''),
      (''papers'', VStrs [''2020.acl-main.1'', ''2020.acl-main.2'', ''2019.emnlp-main.7'']),
      (''coauthors'', VCounts []),
      (''venues'', VCounts [(''ACL'', 2), (''EMNLP'', 1)]),
      (''variant_entries'', VStrs [''j-doe''])]"

definition ex_records :: "string records" where
  "ex_records =
     \<lparr>r_papers =
        [(''2020.acl'',
          [(''2020.acl-main.1'', ex_paper_record ''jane-doe'' ''2020''),
           (''2020.acl-main.2'', ex_paper_record ''j-doe'' ''2020'')]),
         (''2019.emnlp'', [(''2019.emnlp-main.7'', ex_paper_record ''jane-doe'' ''2019'')])],
      r_people =
        [(''j'',
          [(''jane-doe'', ex_jane_record),
           (''j-doe'',
            [(''full'', VStr ''J. Doe''), (''slug'', VStr ''j-doe''),
             (''canonical_entry'', VStr ''jane-doe'')])])],
      r_volumes =
        [(''2020.acl-main'', ex_volume_record ''2020'' [''2020.acl-main.1'', ''2020.acl-main.2'']),
         (''2019.acl-main'', ex_volume_record ''2019'' []),
         (''2020.acl-demos'', ex_volume_record ''2020'' [])],
      r_venues = [(''ACL'', ex_venue_record)],
      r_sigs =
        [(''SIGDAT'',
          [(''name'', VStr ''SIGDAT''), (''slug'', VStr ''sigdat''),
           (''url'', VStr ''https://sigdat.org''),
           (''volumes_by_year'', VByYear [(''2019'', [''2019.emnlp-main''])]),
           (''years'', VStrs [''2019''])])]\<rparr>"

text \<open>The same anthology, with the empty string as the slug of the variant name.\<close>

definition ex_empty_slug :: "(string, string) anthology" where
  "ex_empty_slug =
     ex_anthology\<lparr>people :=
       ex_people\<lparr>get_slug := map_of [(''Jane Doe'', ''jane-doe''), (''J. Doe'', '''')]\<rparr>\<rparr>"

text \<open>
  The same anthology, with references that resolve to nothing: the volume lists a paper
  id that is no key of the paper collection, and a venue without years lists a volume id
  that is no volume.
\<close>

definition ex_unchecked :: "(string, string) anthology" where
  "ex_unchecked =
     ex_anthology
       \<lparr>volumes := [(''2020.acl-main'', ex_volume ''2020.acl-main'' ''2020'' [''2020.acl-main.99''])],
        venues := [(''ACL'', [(''name'', VStr ''ACL''), (''years'', VSet [''2020'']),
                             (''volumes'', VStrs [''2020.acl-main''])]),
                   (''GHOST'', [(''name'', VStr ''Ghost''), (''years'', VSet []),
                               (''volumes'', VStrs [''1999.ghost''])])]\<rparr>"

text \<open>The same anthology, with a fourth paper whose author has no slug.\<close>

definition ex_unknown_author :: "(string, string) anthology" where
  "ex_unknown_author =
     ex_anthology
       \<lparr>papers := ex_papers @
          [(''2020.acl-main.3'', ex_paper ''2020.acl-main.3'' ''2020.acl'' ''2020'' ''John Roe'')]\<rparr>"

text \<open>The same anthology, with a venue that lists a volume id that is no volume.\<close>

definition ex_ghost_volume :: "(string, string) anthology" where
  "ex_ghost_volume =
     ex_anthology
       \<lparr>venues := [(''ACL'', [(''name'', VStr ''ACL''), (''years'', VSet [''2020'']),
                             (''volumes'', VStrs [''2020.acl-main'', ''1999.ghost''])])]\<rparr>"

text \<open>The same anthology, with a people index that attributes one paper twice.\<close>

definition ex_repeated :: "(string, string) anthology" where
  "ex_repeated =
     ex_anthology\<lparr>people :=
       ex_people\<lparr>get_papers :=
         (\<lambda>n. [''2020.acl-main.1'', ''2019.emnlp-main.7'', ''2020.acl-main.1''])\<rparr>\<rparr>"

subsection \<open>Reading the built collections\<close>

text \<open>\<open>idx[g][f]\<close> of a grouped index, \<open>None\<close> when either key is missing.\<close>

definition lookup2 :: "('a, ('b, 'v) dict) dict \<Rightarrow> 'a \<Rightarrow> 'b \<Rightarrow> 'v option" where
  "lookup2 idx g f = (case map_of idx g of None \<Rightarrow> None | Some b \<Rightarrow> map_of b f)"

text \<open>The number of records in a grouped index.\<close>

definition entries :: "('a, ('b, 'v) dict) dict \<Rightarrow> nat" where
  "entries idx = sum_list (map (\<lambda>gb. length (snd gb)) idx)"

text \<open>Every key occurs once, in the index and in each of its buckets.\<close>

definition keys_unique :: "('a, ('b, 'v) dict) dict \<Rightarrow> bool" where
  "keys_unique idx = (distinct (map fst idx) \<and> list_all (\<lambda>gb. distinct (map fst (snd gb))) idx)"

text \<open>The year stored for a volume id in a volume index, if any.\<close>

definition stored_year :: "'n yaml_doc \<Rightarrow> string \<Rightarrow> 'n val option" where
  "stored_year vols k = (case map_of vols k of None \<Rightarrow> None | Some d \<Rightarrow> map_of d ''year'')"

text \<open>
  What resolving a list of names does to the value under a key: nothing when the key is
  missing, otherwise the names are replaced by their slugs, one for one and in order.
\<close>

definition names_resolved ::
  "('n, 'v) person_index \<Rightarrow> 'n val option \<Rightarrow> 'n val option \<Rightarrow> bool" where
  "names_resolved pi before after =
     (case before of
        None \<Rightarrow> after = None
      | Some v \<Rightarrow>
          (\<exists>ns ss. v = VNames ns \<and> map (get_slug pi) ns = map Some ss \<and> after = Some (VStrs ss)))"

text \<open>
  A paper collection keyed by full id: the keys are pairwise different (it is a \<open>dict\<close>)
  and each key is the full id of its paper.
\<close>

definition keyed_by_full_id :: "(string, 'n paper) dict \<Rightarrow> bool" where
  "keyed_by_full_id ps =
     (distinct (map fst ps) \<and> list_all (\<lambda>kp. full_id (snd kp) = fst kp) ps)"

text \<open>
  The five index-building sections of \<open>export_anthology\<close> (lines 51--160) taken together:
  the object graph as they leave it, and the exception raised or the collections built.
\<close>

definition build_records :: "('n, 'y) anthology \<Rightarrow> ('n, 'y) anthology \<times> (py_error + 'n records)" where
  "build_records anthology =
     (case build_papers anthology of
        Inl e \<Rightarrow> (anthology, Inl e)
      | Inr papers_idx \<Rightarrow>
     (case build_people anthology of
        Inl e \<Rightarrow> (anthology, Inl e)
      | Inr people_idx \<Rightarrow>
     (case build_volumes anthology of
        (vs, Inl e) \<Rightarrow> (anthology\<lparr>volumes := vs\<rparr>, Inl e)
      | (vs, Inr volumes_idx) \<Rightarrow>
     (case build_venues (anthology\<lparr>volumes := vs\<rparr>) volumes_idx of
        Inl e \<Rightarrow> (anthology\<lparr>volumes := vs\<rparr>, Inl e)
      | Inr venues_idx \<Rightarrow>
          (anthology\<lparr>volumes := vs\<rparr>,
           Inr \<lparr>r_papers = papers_idx, r_people = people_idx, r_volumes = volumes_idx,
                r_venues = venues_idx, r_sigs = build_sigs (anthology\<lparr>volumes := vs\<rparr>)\<rparr>)))))"

text \<open>No two volumes of the collection have the same full id.\<close>

definition distinct_full_ids :: "(string, 'n volume) dict \<Rightarrow> bool" where
  "distinct_full_ids vs = distinct (map (\<lambda>kv. vol_full_id (snd kv)) vs)"

text \<open>Each name of the people index has a slug of its own.\<close>

definition unique_slugs :: "('n, 'v) person_index \<Rightarrow> bool" where
  "unique_slugs pi = distinct (map (get_slug pi) (names pi))"

text \<open>The keys that the export adds to the record of a canonical name.\<close>

definition aggregate_keys :: "string list" where
  "aggregate_keys = [''papers'', ''coauthors'', ''venues'', ''variant_entries'']"

subsection \<open>The lookups of a call\<close>

text \<open>
  What the index-building sections need of the object graph, stated on the object graph
  alone. A list of names can be resolved when it is missing, or is a list of names that
  all have a slug.
\<close>

definition names_ok :: "('n, 'v) person_index \<Rightarrow> 'n val option \<Rightarrow> bool" where
  "names_ok pi v =
     (case v of
        None \<Rightarrow> True
      | Some (VNames ns) \<Rightarrow> list_all (\<lambda>n. get_slug pi n \<noteq> None) ns
      | Some _ \<Rightarrow> False)"

text \<open>The dictionary of a paper or a volume: it has a raw title, and its authors and
  editors can be resolved.\<close>

definition fields_ok :: "('n, 'v) person_index \<Rightarrow> 'n fields \<Rightarrow> bool" where
  "fields_ok pi d =
     (map_of d ''xml_title'' \<noteq> None
      \<and> names_ok pi (map_of d ''author'') \<and> names_ok pi (map_of d ''editor''))"

text \<open>
  A canonical name: its papers are keys of the paper collection and, when there are two
  or more of them, all have a year; its coauthors have slugs; so have its registered
  variants, when it has variants.
\<close>

definition canonical_ok :: "('n, 'y) anthology \<Rightarrow> 'n \<Rightarrow> bool" where
  "canonical_ok a n =
     (list_all (\<lambda>p. map_of (papers a) p \<noteq> None) (get_papers (people a) n)
      \<and> (2 \<le> length (get_papers (people a) n) \<longrightarrow>
            list_all (\<lambda>p. year_key a p \<noteq> None) (get_papers (people a) n))
      \<and> list_all (\<lambda>c. get_slug (people a) (fst c) \<noteq> None) (get_coauthors (people a) n)
      \<and> (has_variants (people a) n \<longrightarrow>
            list_all (\<lambda>v. get_slug (people a) v \<noteq> None)
              (get_registered_variants (people a) n)))"

text \<open>A name: it has a non-empty slug, and its canonical variant has a slug when the
  name is not canonical.\<close>

definition person_ok :: "('n, 'y) anthology \<Rightarrow> 'n \<Rightarrow> bool" where
  "person_ok a n =
     (case get_slug (people a) n of
        None \<Rightarrow> False
      | Some slug \<Rightarrow>
          slug \<noteq> [] \<and>
          (if is_canonical (people a) n then canonical_ok a n
           else get_slug (people a) (get_canonical_variant (people a) n) \<noteq> None))"

text \<open>
  The year that the volume index will hold for a volume id: that of the last volume of
  the collection with this full id.
\<close>

definition graph_year :: "(string, 'n volume) dict \<Rightarrow> string \<Rightarrow> 'n val option" where
  "graph_year vs k =
     (case map_of (rev (map (\<lambda>kv. (vol_full_id (snd kv), map_of (attrib (snd kv)) ''year'')) vs)) k of
        None \<Rightarrow> None
      | Some y \<Rightarrow> y)"

text \<open>
  A venue: it has \<open>years\<close> and \<open>volumes\<close>, strings can be iterated from \<open>years\<close> and,
  when there is at least one year, from \<open>volumes\<close>, each of which then has a year in the
  volume index (\<open>yr\<close> looks the year up).
\<close>

definition venue_ok :: "(string \<Rightarrow> 'n val option) \<Rightarrow> 'n fields \<Rightarrow> bool" where
  "venue_ok yr data =
     (case map_of data ''years'' of
        None \<Rightarrow> False
      | Some yv \<Rightarrow>
          (case iter_strs yv of
             Inl e \<Rightarrow> False
           | Inr ys \<Rightarrow>
               (case map_of data ''volumes'' of
                  None \<Rightarrow> False
                | Some vv \<Rightarrow>
                    ys = [] \<or>
                    (case iter_strs vv of
                       Inl e \<Rightarrow> False
                     | Inr ks \<Rightarrow> list_all (\<lambda>k. yr k \<noteq> None) ks))))"

definition lookups_ok :: "('n, 'y) anthology \<Rightarrow> bool" where
  "lookups_ok a =
     (list_all (\<lambda>kp. fields_ok (people a) (as_dict (snd kp))) (papers a)
      \<and> list_all (person_ok a) (names (people a))
      \<and> list_all (\<lambda>kv. fields_ok (people a) (attrib (snd kv))) (volumes a)
      \<and> list_all (\<lambda>kv. venue_ok (graph_year (volumes a)) (snd kv)) (venues a))"

section \<open>Properties\<close>

subsection \<open>Resolving names\<close>

lemma get_slugs_Inr: "get_slugs pi ns = Inr ss \<Longrightarrow> map (get_slug pi) ns = map Some ss"
  by (induction ns arbitrary: ss) (auto split: option.splits sum.splits)

lemma get_slugs_Inl: "get_slugs pi ns = Inl e \<Longrightarrow> e = KeyError \<and> (\<exists>n \<in> set ns. get_slug pi n = None)"
  by (induction ns) (auto split: option.splits sum.splits)

lemma get_slugs_ok: "\<forall>n \<in> set ns. get_slug pi n \<noteq> None \<Longrightarrow> \<exists>ss. get_slugs pi ns = Inr ss"
  by (induction ns) (auto split: option.splits sum.splits)

lemma resolve_names_other:
  "resolve_names pi k d = Inr d' \<Longrightarrow> k' \<noteq> k \<Longrightarrow> map_of d' k' = map_of d k'"
  by (auto simp: resolve_names_def update_conv' split: option.splits val.splits sum.splits)

lemma resolve_names_absent:
  "map_of d k = None \<Longrightarrow> resolve_names pi k d = Inr d"
  by (simp add: resolve_names_def)

lemma resolve_names_present:
  "resolve_names pi k d = Inr d' \<Longrightarrow> map_of d k = Some v \<Longrightarrow>
     \<exists>ns ss. v = VNames ns \<and> get_slugs pi ns = Inr ss \<and> map_of d' k = Some (VStrs ss)"
  by (auto simp: resolve_names_def update_conv' split: option.splits val.splits sum.splits)

lemma resolve_names_same:
  "resolve_names pi k d = Inr d' \<Longrightarrow>
     (case map_of d k of None \<Rightarrow> map_of d' k = None
      | Some v \<Rightarrow> \<exists>ns ss. v = VNames ns \<and> map (get_slug pi) ns = map Some ss \<and> map_of d' k = Some (VStrs ss))"
  by (auto simp: resolve_names_def update_conv' split: option.splits val.splits sum.splits dest: get_slugs_Inr)


lemma map_of_move_html:
  "map_of (move_html raw html v d) k =
     (if map_of d raw = None then map_of d k
      else if k = raw then None
      else if k = html then Some (VStr v)
      else map_of d k)"
  by (simp add: move_html_def update_conv' delete_conv')

lemma paper_record_Inr:
  assumes "paper_record a p = Inr d"
  shows "\<exists>d5. map_of (as_dict p) ''xml_title'' \<noteq> None
     \<and> resolve_names (people a) ''author''
         (move_html ''xml_abstract'' ''abstract_html'' (abstract_html p)
           (move_html ''xml_booktitle'' ''booktitle_html'' (booktitle_html p)
             (AList.delete ''xml_title''
               (AList.update ''title_html'' (VStr (title_html p)) (as_dict p))))) = Inr d5
     \<and> resolve_names (people a) ''editor'' d5 = Inr d"
  using assms
  by (simp add: paper_record_def py_del_def Let_def update_conv' split: sum.splits if_splits)

lemma paper_record_fields:
  assumes "paper_record a p = Inr d"
  shows "map_of d ''title_html'' = Some (VStr (title_html p))"
    and "map_of d ''xml_title'' = None"
    and "map_of d ''xml_booktitle'' = None"
    and "map_of d ''xml_abstract'' = None"
    and "map_of (as_dict p) ''xml_booktitle'' \<noteq> None \<Longrightarrow> map_of d ''booktitle_html'' = Some (VStr (booktitle_html p))"
    and "map_of (as_dict p) ''xml_abstract'' \<noteq> None \<Longrightarrow> map_of d ''abstract_html'' = Some (VStr (abstract_html p))"
    and "names_resolved (people a) (map_of (as_dict p) ''author'') (map_of d ''author'')"
    and "names_resolved (people a) (map_of (as_dict p) ''editor'') (map_of d ''editor'')"
proof -
  define d4 where "d4 = move_html ''xml_abstract'' ''abstract_html'' (abstract_html p)
           (move_html ''xml_booktitle'' ''booktitle_html'' (booktitle_html p)
             (AList.delete ''xml_title''
               (AList.update ''title_html'' (VStr (title_html p)) (as_dict p))))"
  from paper_record_Inr[OF assms] obtain d5 where
        r1: "resolve_names (people a) ''author'' d4 = Inr d5"
    and r2: "resolve_names (people a) ''editor'' d5 = Inr d"
    unfolding d4_def by blast
  have m4: "\<And>k. map_of d4 k = (if k = ''xml_abstract'' \<or> k = ''xml_booktitle'' \<or> k = ''xml_title'' then None
       else if k = ''abstract_html'' \<and> map_of (as_dict p) ''xml_abstract'' \<noteq> None then Some (VStr (abstract_html p))
       else if k = ''booktitle_html'' \<and> map_of (as_dict p) ''xml_booktitle'' \<noteq> None then Some (VStr (booktitle_html p))
       else if k = ''title_html'' then Some (VStr (title_html p))
       else map_of (as_dict p) k)"
    unfolding d4_def by (auto simp add: map_of_move_html update_conv' delete_conv')
  have o: "\<And>k. k \<noteq> ''author'' \<Longrightarrow> k \<noteq> ''editor'' \<Longrightarrow> map_of d k = map_of d4 k"
    using resolve_names_other[OF r1] resolve_names_other[OF r2] by simp
  show "map_of d ''title_html'' = Some (VStr (title_html p))"
    by (simp add: o m4)
  show "map_of d ''xml_title'' = None"
    by (simp add: o m4)
  show "map_of d ''xml_booktitle'' = None"
    by (simp add: o m4)
  show "map_of d ''xml_abstract'' = None"
    by (simp add: o m4)
  show "map_of (as_dict p) ''xml_booktitle'' \<noteq> None \<Longrightarrow> map_of d ''booktitle_html'' = Some (VStr (booktitle_html p))"
    by (simp add: o m4)
  show "map_of (as_dict p) ''xml_abstract'' \<noteq> None \<Longrightarrow> map_of d ''abstract_html'' = Some (VStr (abstract_html p))"
    by (simp add: o m4)
  have a4: "map_of d4 ''author'' = map_of (as_dict p) ''author''"
    by (simp add: m4)
  have e4: "map_of d4 ''editor'' = map_of (as_dict p) ''editor''"
    by (simp add: m4)
  have "map_of d ''author'' = map_of d5 ''author''"
    using resolve_names_other[OF r2, of "''author''"] by simp
  with resolve_names_same[OF r1] a4
  show "names_resolved (people a) (map_of (as_dict p) ''author'') (map_of d ''author'')"
    by (simp add: names_resolved_def)
  have "map_of d5 ''editor'' = map_of d4 ''editor''"
    using resolve_names_other[OF r1, of "''editor''"] by simp
  with resolve_names_same[OF r2] e4
  show "names_resolved (people a) (map_of (as_dict p) ''editor'') (map_of d ''editor'')"
    by (simp add: names_resolved_def)
qed

declare make_dirs.simps [simp del]

subsection \<open>Grouped indexes\<close>

lemma lookup2_Nil: "lookup2 [] g f = None"
  by (simp add: lookup2_def)

lemma lookup2_dd_set:
  "lookup2 (dd_set g f d idx) g' f' = (if g' = g \<and> f' = f then Some d else lookup2 idx g' f')"
  by (auto simp: lookup2_def dd_set_def update_conv' split: option.splits)

lemma set_update_subset: "x \<in> set (AList.update k v al) \<Longrightarrow> x = (k, v) \<or> x \<in> set al"
  by (induction al) (auto split: if_splits)

lemma length_update:
  "length (AList.update k v al) = (if map_of al k = None then Suc (length al) else length al)"
  by (induction al) auto

lemma keys_unique_dd_set:
  assumes "keys_unique idx"
  shows "keys_unique (dd_set g f d idx)"
proof -
  let ?b = "case map_of idx g of None \<Rightarrow> [] | Some b \<Rightarrow> b"
  have db: "distinct (map fst ?b)"
  proof (cases "map_of idx g")
    case None
    then show ?thesis by simp
  next
    case (Some b)
    then have "(g, b) \<in> set idx" by (rule map_of_SomeD)
    with assms show ?thesis using Some by (auto simp: keys_unique_def list_all_iff)
  qed
  have "distinct (map fst (AList.update f d ?b))"
    using db by (rule distinct_update)
  moreover have "distinct (map fst (dd_set g f d idx))"
    using assms by (simp add: dd_set_def keys_unique_def distinct_update)
  ultimately show ?thesis
    using assms
    by (auto simp: keys_unique_def list_all_iff dd_set_def dest!: set_update_subset)
qed

lemma entries_update:
  "sum_list (map (\<lambda>gb. length (snd gb)) (AList.update k b' idx))
     + (case map_of idx k of None \<Rightarrow> 0 | Some b \<Rightarrow> length b)
   = sum_list (map (\<lambda>gb. length (snd gb)) idx) + length b'"
  by (induction idx) auto

lemma entries_dd_set:
  "entries (dd_set g f d idx) = (if lookup2 idx g f = None then Suc (entries idx) else entries idx)"
  using entries_update[of g "AList.update f d (case map_of idx g of None \<Rightarrow> [] | Some b \<Rightarrow> b)" idx]
  by (auto simp: entries_def dd_set_def lookup2_def length_update split: option.splits)

subsection \<open>The paper loop\<close>

lemma papers_loop_lookup:
  assumes "papers_loop a ps idx = Inr idx'"
      and "distinct (map (\<lambda>kp. full_id (snd kp)) ps)"
  shows "lookup2 idx' g f = Some d \<longleftrightarrow>
           (\<exists>kp \<in> set ps. top_level_id (snd kp) = g \<and> full_id (snd kp) = f \<and> paper_record a (snd kp) = Inr d)
         \<or> ((\<forall>kp \<in> set ps. \<not> (top_level_id (snd kp) = g \<and> full_id (snd kp) = f))
              \<and> lookup2 idx g f = Some d)"
  using assms
proof (induction ps arbitrary: idx)
  case Nil
  then show ?case by simp
next
  case (Cons kp ps)
  obtain k p where kp: "kp = (k, p)" by (cases kp)
  from Cons.prems(1) obtain d0 where
    d0: "paper_record a p = Inr d0" and
    rest: "papers_loop a ps (dd_set (top_level_id p) (full_id p) d0 idx) = Inr idx'"
    by (auto simp: kp split: sum.splits)
  from Cons.prems(2) have dist: "distinct (map (\<lambda>kp. full_id (snd kp)) ps)"
    and fresh: "\<forall>kp' \<in> set ps. full_id (snd kp') \<noteq> full_id p"
    by (auto simp: kp image_iff)
  note IH = Cons.IH[OF rest dist]
  show ?case
    unfolding IH lookup2_dd_set using fresh d0 by (auto simp: kp)
qed

lemma papers_loop_keys_unique:
  "papers_loop a ps idx = Inr idx' \<Longrightarrow> keys_unique idx \<Longrightarrow> keys_unique idx'"
proof (induction ps arbitrary: idx)
  case Nil
  then show ?case by simp
next
  case (Cons kp ps)
  obtain k p where kp: "kp = (k, p)" by (cases kp)
  from Cons.prems(1) obtain d0 where
    rest: "papers_loop a ps (dd_set (top_level_id p) (full_id p) d0 idx) = Inr idx'"
    by (auto simp: kp split: sum.splits)
  from Cons.IH[OF rest keys_unique_dd_set[OF Cons.prems(2)]] show ?case .
qed

lemma papers_loop_entries:
  assumes "papers_loop a ps idx = Inr idx'"
      and "distinct (map (\<lambda>kp. full_id (snd kp)) ps)"
      and "\<forall>kp \<in> set ps. \<forall>g. lookup2 idx g (full_id (snd kp)) = None"
  shows "entries idx' = entries idx + length ps"
  using assms
proof (induction ps arbitrary: idx)
  case Nil
  then show ?case by simp
next
  case (Cons kp ps)
  obtain k p where kp: "kp = (k, p)" by (cases kp)
  from Cons.prems(1) obtain d0 where
    rest: "papers_loop a ps (dd_set (top_level_id p) (full_id p) d0 idx) = Inr idx'"
    by (auto simp: kp split: sum.splits)
  from Cons.prems(2) have dist: "distinct (map (\<lambda>kp. full_id (snd kp)) ps)"
    and fresh: "\<forall>kp' \<in> set ps. full_id (snd kp') \<noteq> full_id p"
    by (auto simp: kp image_iff)
  have "\<forall>kp' \<in> set ps. \<forall>g. lookup2 (dd_set (top_level_id p) (full_id p) d0 idx) g (full_id (snd kp')) = None"
    using Cons.prems(3) fresh by (simp add: lookup2_dd_set)
  from Cons.IH[OF rest dist this] Cons.prems(3)
  show ?case by (simp add: entries_dd_set kp)
qed

subsection \<open>A successful call\<close>

lemma export_Inr:
  assumes "result (export_anthology a outdir dryrun fs) = Inr recs"
  shows "snd (make_dirs outdir ['''', ''papers'', ''people''] fs) = None"
    and "build_papers a = Inr (r_papers recs)"
    and "build_people a = Inr (r_people recs)"
    and "snd (build_volumes a) = Inr (r_volumes recs)"
    and "build_venues (a\<lparr>volumes := fst (build_volumes a)\<rparr>) (r_volumes recs) = Inr (r_venues recs)"
    and "r_sigs recs = build_sigs (a\<lparr>volumes := fst (build_volumes a)\<rparr>)"
proof -
  obtain fs1 e1 where m: "make_dirs outdir ['''', ''papers'', ''people''] fs = (fs1, e1)"
    by (cases "make_dirs outdir ['''', ''papers'', ''people''] fs")
  have e1: "e1 = None"
    using assms by (cases e1) (simp_all add: export_anthology_def m)
  obtain pidx where p: "build_papers a = Inr pidx"
    using assms by (cases "build_papers a") (simp_all add: export_anthology_def m e1)
  obtain qidx where q: "build_people a = Inr qidx"
    using assms by (cases "build_people a") (simp_all add: export_anthology_def m e1 p)
  obtain vs rv where v: "build_volumes a = (vs, rv)"
    by (cases "build_volumes a")
  obtain vidx where rv: "rv = Inr vidx"
    using assms by (cases rv) (simp_all add: export_anthology_def m e1 p q v)
  obtain nidx where n: "build_venues (a\<lparr>volumes := vs\<rparr>) vidx = Inr nidx"
    using assms
    by (cases "build_venues (a\<lparr>volumes := vs\<rparr>) vidx")
       (simp_all add: export_anthology_def m e1 p q v rv Let_def)
  have r: "recs = \<lparr>r_papers = pidx, r_people = qidx, r_volumes = vidx, r_venues = nidx,
                      r_sigs = build_sigs (a\<lparr>volumes := vs\<rparr>)\<rparr>"
    using assms
    by (cases dryrun)
       (auto simp add: export_anthology_def m e1 p q v rv n Let_def split: prod.splits option.splits)
  show "snd (make_dirs outdir ['''', ''papers'', ''people''] fs) = None"
    by (simp add: m e1)
  show "build_papers a = Inr (r_papers recs)" by (simp add: p r)
  show "build_people a = Inr (r_people recs)" by (simp add: q r)
  show "snd (build_volumes a) = Inr (r_volumes recs)" by (simp add: v rv r)
  show "build_venues (a\<lparr>volumes := fst (build_volumes a)\<rparr>) (r_volumes recs) = Inr (r_venues recs)"
    by (simp add: v n r)
  show "r_sigs recs = build_sigs (a\<lparr>volumes := fst (build_volumes a)\<rparr>)"
    by (simp add: v r)
qed

lemma papers_loop_all_ok:
  "papers_loop a ps idx = Inr idx' \<Longrightarrow> kp \<in> set ps \<Longrightarrow> \<exists>d. paper_record a (snd kp) = Inr d"
  by (induction ps arbitrary: idx) (auto split: sum.splits)

subsection \<open>The small anthology, exported\<close>

lemma ex_export_dry:
  "result (export_anthology ex_anthology ''out'' True ex_fs) = Inr ex_records"
  by code_simp

lemma ex_export_wet:
  "result (export_anthology ex_anthology ''out'' False ex_fs) = Inr ex_records"
  by code_simp

lemma ex_papers_keyed: "keyed_by_full_id (papers ex_anthology)"
  by code_simp

lemma keyed_by_full_idD:
  assumes "keyed_by_full_id ps"
  shows "distinct (map (\<lambda>kp. full_id (snd kp)) ps)"
    and "\<forall>kp \<in> set ps. full_id (snd kp) = fst kp"
proof -
  show k: "\<forall>kp \<in> set ps. full_id (snd kp) = fst kp"
    using assms by (simp add: keyed_by_full_id_def list_all_iff)
  then have eq: "map (\<lambda>kp. full_id (snd kp)) ps = map fst ps" by simp
  show "distinct (map (\<lambda>kp. full_id (snd kp)) ps)"
    unfolding eq using assms by (simp add: keyed_by_full_id_def)
qed

subsection \<open>Paper records\<close>

text \<open>
  C3. Paper grouping is total. When the paper collection is keyed by full id (its keys
  are pairwise different and each is the full id of its paper) and the export returns,
  the paper index holds a record under group \<open>g\<close> and key \<open>f\<close> exactly when some input
  paper has full id \<open>f\<close> and top-level id \<open>g\<close>, and the record is that paper's; no key
  occurs twice in the index or in a bucket, and the index has as many records as there
  are input papers.
\<close>

theorem paper_grouping_total:
  assumes "result (export_anthology a outdir dryrun fs) = Inr recs"
      and "keyed_by_full_id (papers a)"
  shows "(\<forall>g f d. lookup2 (r_papers recs) g f = Some d \<longleftrightarrow>
            (\<exists>p. (f, p) \<in> set (papers a) \<and> top_level_id p = g \<and> paper_record a p = Inr d))
         \<and> keys_unique (r_papers recs)
         \<and> entries (r_papers recs) = length (papers a)"
proof -
  have loop: "papers_loop a (papers a) [] = Inr (r_papers recs)"
    using export_Inr(2)[OF assms(1)] by (simp add: build_papers_def)
  note dist = keyed_by_full_idD(1)[OF assms(2)] and keyed = keyed_by_full_idD(2)[OF assms(2)]
  have "lookup2 (r_papers recs) g f = Some d \<longleftrightarrow>
          (\<exists>p. (f, p) \<in> set (papers a) \<and> top_level_id p = g \<and> paper_record a p = Inr d)"
    for g f d
    unfolding papers_loop_lookup[OF loop dist] using keyed
    by (force simp: lookup2_Nil)
  moreover have "keys_unique (r_papers recs)"
    using papers_loop_keys_unique[OF loop] by (simp add: keys_unique_def)
  moreover have "entries (r_papers recs) = length (papers a)"
    using papers_loop_entries[OF loop dist] by (simp add: lookup2_Nil entries_def)
  ultimately show ?thesis by blast
qed

theorem paper_grouping_total_witness:
  "result (export_anthology ex_anthology ''out'' True ex_fs) = Inr ex_records
   \<and> keyed_by_full_id (papers ex_anthology)
   \<and> keys_unique (r_papers ex_records)
   \<and> entries (r_papers ex_records) = length (papers ex_anthology)"
  using paper_grouping_total[OF ex_export_dry ex_papers_keyed] ex_export_dry ex_papers_keyed
  by blast

text \<open>
  C7. When the paper collection is keyed by full id and the export returns, the record of
  every paper is in the paper index under the paper's top-level id and full id; it has
  \<open>title_html\<close> and none of the raw keys \<open>xml_title\<close>, \<open>xml_booktitle\<close>,
  \<open>xml_abstract\<close>; it has \<open>booktitle_html\<close> or \<open>abstract_html\<close> when the paper had the
  raw key; and a list of names under \<open>author\<close> or \<open>editor\<close> is replaced by the list of
  their slugs, one for one and in order.
\<close>

theorem paper_record_shape:
  assumes "result (export_anthology a outdir dryrun fs) = Inr recs"
      and "keyed_by_full_id (papers a)"
      and "(k, p) \<in> set (papers a)"
  shows "\<exists>d. lookup2 (r_papers recs) (top_level_id p) (full_id p) = Some d
           \<and> map_of d ''title_html'' = Some (VStr (title_html p))
           \<and> map_of d ''xml_title'' = None
           \<and> map_of d ''xml_booktitle'' = None
           \<and> map_of d ''xml_abstract'' = None
           \<and> (map_of (as_dict p) ''xml_booktitle'' \<noteq> None \<longrightarrow>
                map_of d ''booktitle_html'' = Some (VStr (booktitle_html p)))
           \<and> (map_of (as_dict p) ''xml_abstract'' \<noteq> None \<longrightarrow>
                map_of d ''abstract_html'' = Some (VStr (abstract_html p)))
           \<and> names_resolved (people a) (map_of (as_dict p) ''author'') (map_of d ''author'')
           \<and> names_resolved (people a) (map_of (as_dict p) ''editor'') (map_of d ''editor'')"
proof -
  have loop: "papers_loop a (papers a) [] = Inr (r_papers recs)"
    using export_Inr(2)[OF assms(1)] by (simp add: build_papers_def)
  note dist = keyed_by_full_idD(1)[OF assms(2)] and keyed = keyed_by_full_idD(2)[OF assms(2)]
  from papers_loop_all_ok[OF loop assms(3)]
  obtain d where d: "paper_record a p = Inr d" by auto
  have "lookup2 (r_papers recs) (top_level_id p) (full_id p) = Some d"
    unfolding papers_loop_lookup[OF loop dist] using assms(3) d by force
  with paper_record_fields[OF d] show ?thesis by blast
qed

theorem paper_record_shape_witness:
  "result (export_anthology ex_anthology ''out'' True ex_fs) = Inr ex_records
   \<and> keyed_by_full_id (papers ex_anthology)
   \<and> (''2020.acl-main.1'', ex_paper ''2020.acl-main.1'' ''2020.acl'' ''2020'' ''Jane Doe'')
        \<in> set (papers ex_anthology)
   \<and> lookup2 (r_papers ex_records) ''2020.acl'' ''2020.acl-main.1''
        = Some (ex_paper_record ''jane-doe'' ''2020'')
   \<and> map_of (ex_paper_record ''jane-doe'' ''2020'') ''author'' = Some (VStrs [''jane-doe''])
   \<and> map_of (ex_paper_record ''jane-doe'' ''2020'') ''title_html''
        = Some (VStr ''<b>Example</b> Paper'')
   \<and> map_of (ex_paper_record ''jane-doe'' ''2020'') ''xml_title'' = None"
proof -
  have h: "(''2020.acl-main.1'', ex_paper ''2020.acl-main.1'' ''2020.acl'' ''2020'' ''Jane Doe'')
             \<in> set (papers ex_anthology)"
    by (simp add: ex_anthology_def ex_papers_def)
  have l: "lookup2 (r_papers ex_records) ''2020.acl'' ''2020.acl-main.1''
             = Some (ex_paper_record ''jane-doe'' ''2020'')"
    by code_simp
  have t: "top_level_id (ex_paper ''2020.acl-main.1'' ''2020.acl'' ''2020'' ''Jane Doe'') = ''2020.acl''"
          "full_id (ex_paper ''2020.acl-main.1'' ''2020.acl'' ''2020'' ''Jane Doe'') = ''2020.acl-main.1''"
          "title_html (ex_paper ''2020.acl-main.1'' ''2020.acl'' ''2020'' ''Jane Doe'') = ''<b>Example</b> Paper''"
    by (simp_all add: ex_paper_def)
  have au: "map_of (ex_paper_record ''jane-doe'' ''2020'') ''author'' = Some (VStrs [''jane-doe''])"
    by (simp add: ex_paper_record_def)
  show ?thesis
    using paper_record_shape[OF ex_export_dry ex_papers_keyed h] ex_export_dry ex_papers_keyed h l au
    by (auto simp: t)
qed

subsection \<open>The phases of a call\<close>

lemma export_anthology_phases:
  "export_anthology a outdir dryrun fs =
     (case make_dirs outdir ['''', ''papers'', ''people''] fs of
        (fs1, Some e) \<Rightarrow> \<lparr>graph = a, disk = fs1, result = Inl e\<rparr>
      | (fs1, None) \<Rightarrow>
          (case build_records a of
             (a', Inl e) \<Rightarrow> \<lparr>graph = a', disk = fs1, result = Inl e\<rparr>
           | (a', Inr recs) \<Rightarrow>
               if dryrun then \<lparr>graph = a', disk = fs1, result = Inr recs\<rparr>
               else (case dump_all outdir recs fs1 of
                       (fs2, Some e) \<Rightarrow> \<lparr>graph = a', disk = fs2, result = Inl e\<rparr>
                     | (fs2, None) \<Rightarrow> \<lparr>graph = a', disk = fs2, result = Inr recs\<rparr>)))"
  unfolding export_anthology_def build_records_def Let_def
  by (simp split: prod.splits option.splits sum.splits)

lemma build_records_frame:
  "papers (fst (build_records a)) = papers a"
  "people (fst (build_records a)) = people a"
  "venues (fst (build_records a)) = venues a"
  "sigs (fst (build_records a)) = sigs a"
  "py_str (fst (build_records a)) = py_str a"
  "volumes (fst (build_records a)) = fst (build_volumes a) \<or> volumes (fst (build_records a)) = volumes a"
  unfolding build_records_def
  by (simp_all split: prod.splits option.splits sum.splits)

lemma export_frame:
  "papers (graph (export_anthology a outdir dryrun fs)) = papers a"
  "people (graph (export_anthology a outdir dryrun fs)) = people a"
  "venues (graph (export_anthology a outdir dryrun fs)) = venues a"
  "sigs (graph (export_anthology a outdir dryrun fs)) = sigs a"
  using build_records_frame[of a]
  unfolding export_anthology_phases
  by (auto split: prod.splits option.splits sum.splits)

lemma export_dry_disk:
  "disk (export_anthology a outdir True fs) = fst (make_dirs outdir ['''', ''papers'', ''people''] fs)"
  unfolding export_anthology_phases
  by (simp split: prod.splits option.splits sum.splits)

lemma export_failed_build_disk:
  assumes "snd (build_records a) = Inl e"
  shows "disk (export_anthology a outdir dryrun fs) = fst (make_dirs outdir ['''', ''papers'', ''people''] fs)"
    and "\<exists>e'. result (export_anthology a outdir dryrun fs) = Inl e'"
  using assms unfolding export_anthology_phases
  by (auto split: prod.splits option.splits sum.splits)

lemma export_dry_result:
  "result (export_anthology a outdir True fs) =
     (case snd (make_dirs outdir ['''', ''papers'', ''people''] fs) of
        Some e \<Rightarrow> Inl e
      | None \<Rightarrow> snd (build_records a))"
  unfolding export_anthology_phases
  by (simp split: prod.splits option.splits sum.splits)

lemma export_wet_Inr:
  assumes "result (export_anthology a outdir False fs) = Inr recs"
  shows "result (export_anthology a outdir True fs) = Inr recs"
  using assms unfolding export_anthology_phases
  by (auto split: prod.splits option.splits sum.splits)

subsection \<open>Directories\<close>

lemma os_mkdir_Inr:
  "os_mkdir p fs = Inr fs' \<Longrightarrow> files fs' = files fs \<and> dirs fs' = insert (norm_path p) (dirs fs)"
  by (auto simp: os_mkdir_def Let_def split: if_splits option.splits)

lemma make_dirs_effect:
  "make_dirs outdir subs fs = (fs', e) \<Longrightarrow>
     files fs' = files fs \<and> dirs fs \<subseteq> dirs fs'
     \<and> dirs fs' \<subseteq> dirs fs \<union> (\<lambda>s. norm_path (outdir @ ''/'' @ s)) ` set subs"
proof (induction subs arbitrary: fs)
  case Nil
  then show ?case by (simp add: make_dirs.simps)
next
  case (Cons s subs)
  show ?case
  proof (cases "os_path_isdir fs (outdir @ ''/'' @ s)")
    case True
    with Cons.prems have "make_dirs outdir subs fs = (fs', e)"
      by (simp add: make_dirs.simps)
    from Cons.IH[OF this] show ?thesis by auto
  next
    case False
    show ?thesis
    proof (cases "os_mkdir (outdir @ ''/'' @ s) fs")
      case (Inl err)
      with False Cons.prems show ?thesis by (auto simp add: make_dirs.simps)
    next
      case (Inr fs1)
      with False Cons.prems have "make_dirs outdir subs fs1 = (fs', e)"
        by (simp add: make_dirs.simps)
      from Cons.IH[OF this] os_mkdir_Inr[OF Inr] show ?thesis by auto
    qed
  qed
qed

lemma os_mkdir_isdir:
  "os_mkdir p fs = Inr fs' \<Longrightarrow> os_path_isdir fs' p"
  by (auto simp: os_mkdir_def os_path_isdir_def dir_exists_def Let_def
           split: if_splits option.splits)

lemma os_path_isdir_mono:
  "os_path_isdir fs p \<Longrightarrow> dirs fs \<subseteq> dirs fs' \<Longrightarrow> os_path_isdir fs' p"
  by (auto simp: os_path_isdir_def dir_exists_def)

lemma make_dirs_all_exist:
  "make_dirs outdir subs fs = (fs', None) \<Longrightarrow> s \<in> set subs \<Longrightarrow>
     os_path_isdir fs' (outdir @ ''/'' @ s)"
proof (induction subs arbitrary: fs)
  case Nil
  then show ?case by simp
next
  case (Cons t subs)
  show ?case
  proof (cases "os_path_isdir fs (outdir @ ''/'' @ t)")
    case True
    with Cons.prems(1) have rest: "make_dirs outdir subs fs = (fs', None)"
      by (simp add: make_dirs.simps)
    show ?thesis
    proof (cases "s = t")
      case True
      from make_dirs_effect[OF rest] have "dirs fs \<subseteq> dirs fs'" by simp
      with \<open>os_path_isdir fs (outdir @ ''/'' @ t)\<close> True show ?thesis
        by (auto intro: os_path_isdir_mono)
    next
      case False
      with Cons.prems(2) have "s \<in> set subs" by simp
      from Cons.IH[OF rest this] show ?thesis .
    qed
  next
    case False
    show ?thesis
    proof (cases "os_mkdir (outdir @ ''/'' @ t) fs")
      case (Inl err)
      with False Cons.prems(1) show ?thesis by (simp add: make_dirs.simps)
    next
      case (Inr fs1)
      with False Cons.prems(1) have rest: "make_dirs outdir subs fs1 = (fs', None)"
        by (simp add: make_dirs.simps)
      show ?thesis
      proof (cases "s = t")
        case True
        from make_dirs_effect[OF rest] have "dirs fs1 \<subseteq> dirs fs'" by simp
        with os_mkdir_isdir[OF Inr] True show ?thesis
          by (auto intro: os_path_isdir_mono)
      next
        case False
        with Cons.prems(2) have "s \<in> set subs" by simp
        from Cons.IH[OF rest this] show ?thesis .
      qed
    qed
  qed
qed

lemma write_yaml_dirs: "write_yaml p doc fs = Inr fs' \<Longrightarrow> dirs fs' = dirs fs"
  by (auto simp: write_yaml_def Let_def split: if_splits option.splits)

lemma dump_groups_dirs: "dirs (fst (dump_groups outdir sub docs fs)) = dirs fs"
proof (induction docs arbitrary: fs)
  case Nil
  then show ?case by simp
next
  case (Cons kd docs)
  obtain k doc where kd: "kd = (k, doc)" by (cases kd)
  show ?case
  proof (cases "write_yaml (outdir @ ''/'' @ sub @ ''/'' @ k @ ''.yaml'') doc fs")
    case (Inl e)
    then show ?thesis by (simp add: kd)
  next
    case (Inr fs1)
    with Cons.IH[of fs1] write_yaml_dirs[OF Inr] show ?thesis by (simp add: kd)
  qed
qed

lemma dump_all_dirs: "dirs (fst (dump_all outdir recs fs)) = dirs fs"
proof -
  obtain fs1 e1 where g1: "dump_groups outdir ''papers'' (r_papers recs) fs = (fs1, e1)"
    by (cases "dump_groups outdir ''papers'' (r_papers recs) fs")
  have d1: "dirs fs1 = dirs fs"
    using dump_groups_dirs[of outdir "''papers''" "r_papers recs" fs] by (simp add: g1)
  show ?thesis
  proof (cases e1)
    case (Some e)
    then show ?thesis by (simp add: dump_all_def g1 d1)
  next
    case None
    show ?thesis
    proof (cases "write_yaml (outdir @ ''/volumes.yaml'') (r_volumes recs) fs1")
      case (Inl e)
      with None show ?thesis by (simp add: dump_all_def g1 d1)
    next
      case v: (Inr fs2)
      note d2 = write_yaml_dirs[OF v]
      show ?thesis
      proof (cases "write_yaml (outdir @ ''/venues.yaml'') (r_venues recs) fs2")
        case (Inl e)
        with None v show ?thesis by (simp add: dump_all_def g1 d1 d2)
      next
        case n: (Inr fs3)
        note d3 = write_yaml_dirs[OF n]
        show ?thesis
        proof (cases "write_yaml (outdir @ ''/sigs.yaml'') (r_sigs recs) fs3")
          case (Inl e)
          with None v n show ?thesis by (simp add: dump_all_def g1 d1 d2 d3)
        next
          case s: (Inr fs4)
          note d4 = write_yaml_dirs[OF s]
          from None v n s show ?thesis
            by (simp add: dump_all_def g1 dump_groups_dirs d1 d2 d3 d4)
        qed
      qed
    qed
  qed
qed

lemma export_dirs:
  "dirs (disk (export_anthology a outdir dryrun fs))
     = dirs (fst (make_dirs outdir ['''', ''papers'', ''people''] fs))"
proof -
  obtain fs1 e1 where m: "make_dirs outdir ['''', ''papers'', ''people''] fs = (fs1, e1)"
    by (cases "make_dirs outdir ['''', ''papers'', ''people''] fs")
  obtain a' r where b: "build_records a = (a', r)" by (cases "build_records a")
  show ?thesis
  proof (cases e1)
    case (Some e)
    then show ?thesis by (simp add: export_anthology_phases m)
  next
    case None
    show ?thesis
    proof (cases r)
      case (Inl e)
      with None show ?thesis by (simp add: export_anthology_phases m b)
    next
      case (Inr recs)
      obtain fs2 e2 where d: "dump_all outdir recs fs1 = (fs2, e2)"
        by (cases "dump_all outdir recs fs1")
      have "dirs fs2 = dirs fs1" using dump_all_dirs[of outdir recs fs1] by (simp add: d)
      with None Inr show ?thesis
        by (cases dryrun; cases e2) (simp_all add: export_anthology_phases m b d)
    qed
  qed
qed

lemma export_mkdir_failed:
  "snd (make_dirs outdir ['''', ''papers'', ''people''] fs) = Some e \<Longrightarrow>
     result (export_anthology a outdir dryrun fs) = Inl e"
  by (cases "make_dirs outdir ['''', ''papers'', ''people''] fs")
     (simp add: export_anthology_phases)

subsection \<open>Dry runs\<close>

text \<open>
  C2 (as the claim states it, refuted). A dry run on an empty working directory creates
  the directories \<open>out\<close>, \<open>out/papers\<close> and \<open>out/people\<close>.
\<close>

theorem dryrun_creates_directories:
  "dirs ex_fs = {}
   \<and> dirs (disk (export_anthology ex_anthology ''out'' True ex_fs))
       = {''out'', ''out/papers'', ''out/people''}"
  by code_simp

text \<open>
  C2 (amended). A dry run writes no file: the files and their contents are as before.
  Directories are handled as in a run that writes, since lines 46--49 come before the
  test of \<open>dryrun\<close>: no directory is removed and none is made but \<open>outdir\<close>,
  \<open>outdir/papers\<close> and \<open>outdir/people\<close>; when none of the \<open>os.mkdir\<close> calls raises,
  all three are directories afterwards, so each of them that was missing has been made;
  when one raises, the export raises that error. A dry run builds the same record
  collections as a run that writes them.
\<close>

theorem dryrun_writes_no_file:
  "files (disk (export_anthology a outdir True fs)) = files fs
   \<and> dirs fs \<subseteq> dirs (disk (export_anthology a outdir True fs))
   \<and> dirs (disk (export_anthology a outdir True fs)) \<subseteq>
       dirs fs \<union> {norm_path (outdir @ ''/''), norm_path (outdir @ ''/papers''),
                  norm_path (outdir @ ''/people'')}
   \<and> dirs (disk (export_anthology a outdir True fs))
       = dirs (disk (export_anthology a outdir False fs))
   \<and> (snd (make_dirs outdir ['''', ''papers'', ''people''] fs) = None \<longrightarrow>
        os_path_isdir (disk (export_anthology a outdir True fs)) (outdir @ ''/'')
        \<and> os_path_isdir (disk (export_anthology a outdir True fs)) (outdir @ ''/papers'')
        \<and> os_path_isdir (disk (export_anthology a outdir True fs)) (outdir @ ''/people''))
   \<and> (snd (make_dirs outdir ['''', ''papers'', ''people''] fs) = Some e \<longrightarrow>
        result (export_anthology a outdir True fs) = Inl e
        \<and> result (export_anthology a outdir False fs) = Inl e)
   \<and> (result (export_anthology a outdir False fs) = Inr recs \<longrightarrow>
        result (export_anthology a outdir True fs) = Inr recs)"
proof -
  obtain fs' e' where m: "make_dirs outdir ['''', ''papers'', ''people''] fs = (fs', e')"
    by (cases "make_dirs outdir ['''', ''papers'', ''people''] fs")
  have disk: "disk (export_anthology a outdir True fs) = fs'"
    by (simp add: export_dry_disk m)
  from make_dirs_effect[OF m]
  have "files fs' = files fs" and "dirs fs \<subseteq> dirs fs'"
    and "dirs fs' \<subseteq> dirs fs \<union> {norm_path (outdir @ ''/''), norm_path (outdir @ ''/papers''),
                                norm_path (outdir @ ''/people'')}"
    by auto
  moreover have "dirs fs' = dirs (disk (export_anthology a outdir False fs))"
    by (simp add: export_dirs m)
  moreover have "os_path_isdir fs' (outdir @ ''/'') \<and> os_path_isdir fs' (outdir @ ''/papers'')
                   \<and> os_path_isdir fs' (outdir @ ''/people'')"
    if "e' = None"
    using make_dirs_all_exist[of outdir "['''', ''papers'', ''people'']" fs fs' "''''"]
          make_dirs_all_exist[of outdir "['''', ''papers'', ''people'']" fs fs' "''papers''"]
          make_dirs_all_exist[of outdir "['''', ''papers'', ''people'']" fs fs' "''people''"]
          m that
    by simp
  moreover have "result (export_anthology a outdir True fs) = Inl e
                   \<and> result (export_anthology a outdir False fs) = Inl e"
    if "e' = Some e"
    using export_mkdir_failed[of outdir fs e a] m that by simp
  moreover have "result (export_anthology a outdir True fs) = Inr recs"
    if "result (export_anthology a outdir False fs) = Inr recs"
    using that by (rule export_wet_Inr)
  ultimately show ?thesis
    by (simp add: disk m)
qed

theorem dryrun_writes_no_file_witness:
  "snd (make_dirs ''out'' ['''', ''papers'', ''people''] ex_fs) = None
   \<and> result (export_anthology ex_anthology ''out'' False ex_fs) = Inr ex_records
   \<and> result (export_anthology ex_anthology ''out'' True ex_fs) = Inr ex_records
   \<and> files (disk (export_anthology ex_anthology ''out'' True ex_fs)) = files ex_fs
   \<and> \<not> os_path_isdir ex_fs ''out/''
   \<and> \<not> os_path_isdir ex_fs ''out/papers''
   \<and> \<not> os_path_isdir ex_fs ''out/people''
   \<and> os_path_isdir (disk (export_anthology ex_anthology ''out'' True ex_fs)) ''out/''
   \<and> os_path_isdir (disk (export_anthology ex_anthology ''out'' True ex_fs)) ''out/papers''
   \<and> os_path_isdir (disk (export_anthology ex_anthology ''out'' True ex_fs)) ''out/people''
   \<and> snd (make_dirs ''a/b'' ['''', ''papers'', ''people''] ex_fs) = Some FileNotFoundError
   \<and> result (export_anthology ex_anthology ''a/b'' True ex_fs) = Inl FileNotFoundError"
proof -
  have m1: "snd (make_dirs ''out'' ['''', ''papers'', ''people''] ex_fs) = None"
    by code_simp
  have m2: "snd (make_dirs ''a/b'' ['''', ''papers'', ''people''] ex_fs) = Some FileNotFoundError"
    by code_simp
  have n: "\<not> os_path_isdir ex_fs ''out/''" "\<not> os_path_isdir ex_fs ''out/papers''"
    "\<not> os_path_isdir ex_fs ''out/people''"
    by code_simp+
  show ?thesis
    using dryrun_writes_no_file[of ex_anthology "''out''" ex_fs FileNotFoundError ex_records]
          dryrun_writes_no_file[of ex_anthology "''a/b''" ex_fs FileNotFoundError ex_records]
          ex_export_wet m1 m2 n
    by simp
qed

subsection \<open>The input objects\<close>

text \<open>
  C1 (the code departs from the claim). Exporting the small anthology changes the
  attribute dictionaries of its volumes: before the call the volume \<open>2019.acl-main\<close> has
  the key \<open>xml_title\<close>, after the call its attributes are the volume record that was
  built, without \<open>xml_title\<close> and \<open>xml_abstract\<close> and with \<open>title_html\<close>, \<open>papers\<close>
  and the editor's slug. Exporting the object graph a second time therefore raises
  \<open>KeyError\<close>.
\<close>

theorem export_changes_volume_attrib:
  "map_of (volumes ex_anthology) ''2019.acl-main'' = Some (ex_volume ''2019.acl-main'' ''2019'' [])
   \<and> map_of (attrib (ex_volume ''2019.acl-main'' ''2019'' [])) ''xml_title''
        = Some (VStr ''<b>Proceedings</b>'')
   \<and> map_of (volumes (graph (export_anthology ex_anthology ''out'' True ex_fs))) ''2019.acl-main''
        = Some ((ex_volume ''2019.acl-main'' ''2019'' [])\<lparr>attrib := ex_volume_record ''2019'' []\<rparr>)
   \<and> map_of (ex_volume_record ''2019'' []) ''xml_title'' = None
   \<and> result (export_anthology (graph (export_anthology ex_anthology ''out'' True ex_fs))
               ''out'' True ex_fs) = Inl KeyError"
  by code_simp

subsection \<open>Volume records\<close>

lemma map_of_del_if_in: "map_of (del_if_in k d) = (map_of d)(k := None)"
  by (auto simp: del_if_in_def delete_conv' fun_eq_iff)

lemma volume_export_None:
  assumes "volume_export a v = (v', None)"
  shows "\<exists>d5. map_of (attrib v) ''xml_title'' \<noteq> None
     \<and> resolve_names (people a) ''author''
         (AList.update ''papers'' (VStrs (paper_ids v))
           (del_if_in ''xml_abstract''
             (AList.delete ''xml_title''
               (AList.update ''title_html'' (VStr (vol_title_html v)) (attrib v))))) = Inr d5
     \<and> resolve_names (people a) ''editor'' d5 = Inr (attrib v')
     \<and> v' = v\<lparr>attrib := attrib v'\<rparr>"
  using assms
  by (auto simp add: volume_export_def py_del_def Let_def update_conv' split: sum.splits if_splits)

lemma volume_export_fields:
  assumes "volume_export a v = (v', None)"
  shows "vol_full_id v' = vol_full_id v"
    and "map_of (attrib v') ''title_html'' = Some (VStr (vol_title_html v))"
    and "map_of (attrib v') ''xml_title'' = None"
    and "map_of (attrib v') ''xml_abstract'' = None"
    and "map_of (attrib v') ''papers'' = Some (VStrs (paper_ids v))"
    and "names_resolved (people a) (map_of (attrib v) ''author'') (map_of (attrib v') ''author'')"
    and "names_resolved (people a) (map_of (attrib v) ''editor'') (map_of (attrib v') ''editor'')"
    and "\<And>k. k \<notin> {''title_html'', ''xml_title'', ''xml_abstract'', ''papers'', ''author'', ''editor''}
           \<Longrightarrow> map_of (attrib v') k = map_of (attrib v) k"
proof -
  define d4 where "d4 = AList.update ''papers'' (VStrs (paper_ids v))
           (del_if_in ''xml_abstract''
             (AList.delete ''xml_title''
               (AList.update ''title_html'' (VStr (vol_title_html v)) (attrib v))))"
  from volume_export_None[OF assms] obtain d5 where
        r1: "resolve_names (people a) ''author'' d4 = Inr d5"
    and r2: "resolve_names (people a) ''editor'' d5 = Inr (attrib v')"
    and v': "v' = v\<lparr>attrib := attrib v'\<rparr>"
    unfolding d4_def by blast
  have m4: "\<And>k. map_of d4 k =
       (if k = ''papers'' then Some (VStrs (paper_ids v))
        else if k = ''xml_abstract'' \<or> k = ''xml_title'' then None
        else if k = ''title_html'' then Some (VStr (vol_title_html v))
        else map_of (attrib v) k)"
    unfolding d4_def by (simp add: map_of_del_if_in update_conv' delete_conv')
  have o: "\<And>k. k \<noteq> ''author'' \<Longrightarrow> k \<noteq> ''editor'' \<Longrightarrow> map_of (attrib v') k = map_of d4 k"
    using resolve_names_other[OF r1] resolve_names_other[OF r2] by simp
  show "vol_full_id v' = vol_full_id v"
    by (subst v') simp
  show "map_of (attrib v') ''title_html'' = Some (VStr (vol_title_html v))"
    by (simp add: o m4)
  show "map_of (attrib v') ''xml_title'' = None"
    by (simp add: o m4)
  show "map_of (attrib v') ''xml_abstract'' = None"
    by (simp add: o m4)
  show "map_of (attrib v') ''papers'' = Some (VStrs (paper_ids v))"
    by (simp add: o m4)
  show "\<And>k. k \<notin> {''title_html'', ''xml_title'', ''xml_abstract'', ''papers'', ''author'', ''editor''}
           \<Longrightarrow> map_of (attrib v') k = map_of (attrib v) k"
    by (simp add: o m4)
  have a4: "map_of d4 ''author'' = map_of (attrib v) ''author''"
    by (simp add: m4)
  have e4: "map_of d4 ''editor'' = map_of (attrib v) ''editor''"
    by (simp add: m4)
  have "map_of (attrib v') ''author'' = map_of d5 ''author''"
    using resolve_names_other[OF r2, of "''author''"] by simp
  with resolve_names_same[OF r1] a4
  show "names_resolved (people a) (map_of (attrib v) ''author'') (map_of (attrib v') ''author'')"
    by (simp add: names_resolved_def)
  have "map_of d5 ''editor'' = map_of d4 ''editor''"
    using resolve_names_other[OF r1, of "''editor''"] by simp
  with resolve_names_same[OF r2] e4
  show "names_resolved (people a) (map_of (attrib v) ''editor'') (map_of (attrib v') ''editor'')"
    by (simp add: names_resolved_def)
qed

lemma volumes_loop_all_ok:
  "volumes_loop a vs idx = (vs', Inr idx') \<Longrightarrow> kv \<in> set vs \<Longrightarrow>
     \<exists>v'. volume_export a (snd kv) = (v', None)"
  by (induction vs arbitrary: idx vs') (auto split: prod.splits option.splits)

lemma volumes_loop_lookup:
  assumes "volumes_loop a vs idx = (vs', Inr idx')"
      and "distinct (map (\<lambda>kv. vol_full_id (snd kv)) vs)"
  shows "map_of idx' k = Some d \<longleftrightarrow>
           (\<exists>kv \<in> set vs. vol_full_id (snd kv) = k
              \<and> (\<exists>v'. volume_export a (snd kv) = (v', None) \<and> attrib v' = d))
         \<or> ((\<forall>kv \<in> set vs. vol_full_id (snd kv) \<noteq> k) \<and> map_of idx k = Some d)"
  using assms
proof (induction vs arbitrary: idx vs')
  case Nil
  then show ?case by simp
next
  case (Cons kv vs)
  obtain vid v where kv: "kv = (vid, v)" by (cases kv)
  from Cons.prems(1) obtain v' rest' where
    v': "volume_export a v = (v', None)" and
    rest: "volumes_loop a vs (AList.update (vol_full_id v') (attrib v') idx) = (rest', Inr idx')"
    by (auto simp: kv split: prod.splits option.splits)
  have id: "vol_full_id v' = vol_full_id v"
    by (rule volume_export_fields(1)[OF v'])
  from Cons.prems(2) have dist: "distinct (map (\<lambda>kv. vol_full_id (snd kv)) vs)"
    and fresh: "\<forall>kv' \<in> set vs. vol_full_id (snd kv') \<noteq> vol_full_id v"
    by (auto simp: kv image_iff)
  note IH = Cons.IH[OF rest dist]
  show ?case
    unfolding IH using fresh v' by (auto simp: kv id update_conv')
qed

text \<open>
  C8. When no two volumes share a full id and the export returns, the record of every
  volume is in the volume index under the volume's full id; it has \<open>title_html\<close> and
  neither \<open>xml_title\<close> nor \<open>xml_abstract\<close>; its \<open>abstract_html\<close> is whatever the
  volume's attributes had under that key (the export adds none); its \<open>papers\<close> is the
  volume's list of paper ids; and a list of names under \<open>author\<close> or \<open>editor\<close> is
  replaced by the list of their slugs, one for one and in order.
\<close>

theorem volume_record_shape:
  assumes "result (export_anthology a outdir dryrun fs) = Inr recs"
      and "distinct_full_ids (volumes a)"
      and "(k, v) \<in> set (volumes a)"
  shows "\<exists>d. map_of (r_volumes recs) (vol_full_id v) = Some d
           \<and> map_of d ''title_html'' = Some (VStr (vol_title_html v))
           \<and> map_of d ''xml_title'' = None
           \<and> map_of d ''xml_abstract'' = None
           \<and> map_of d ''abstract_html'' = map_of (attrib v) ''abstract_html''
           \<and> map_of d ''papers'' = Some (VStrs (paper_ids v))
           \<and> names_resolved (people a) (map_of (attrib v) ''author'') (map_of d ''author'')
           \<and> names_resolved (people a) (map_of (attrib v) ''editor'') (map_of d ''editor'')"
proof -
  obtain vs' where loop: "volumes_loop a (volumes a) [] = (vs', Inr (r_volumes recs))"
    using export_Inr(4)[OF assms(1)]
    by (cases "volumes_loop a (volumes a) []") (simp add: build_volumes_def)
  from volumes_loop_all_ok[OF loop assms(3)]
  obtain v' where v': "volume_export a v = (v', None)" by auto
  have dist: "distinct (map (\<lambda>kv. vol_full_id (snd kv)) (volumes a))"
    using assms(2) by (simp add: distinct_full_ids_def)
  have "map_of (r_volumes recs) (vol_full_id v) = Some (attrib v')"
    unfolding volumes_loop_lookup[OF loop dist] using assms(3) v' by force
  moreover have "map_of (attrib v') ''abstract_html'' = map_of (attrib v) ''abstract_html''"
    by (rule volume_export_fields(8)[OF v']) simp
  ultimately show ?thesis
    using volume_export_fields(2-7)[OF v'] by blast
qed

theorem volume_record_shape_witness:
  "result (export_anthology ex_anthology ''out'' True ex_fs) = Inr ex_records
   \<and> distinct_full_ids (volumes ex_anthology)
   \<and> (''2020.acl-main'', ex_volume ''2020.acl-main'' ''2020'' [''2020.acl-main.1'', ''2020.acl-main.2''])
        \<in> set (volumes ex_anthology)
   \<and> map_of (r_volumes ex_records) ''2020.acl-main''
        = Some (ex_volume_record ''2020'' [''2020.acl-main.1'', ''2020.acl-main.2''])
   \<and> map_of (ex_volume_record ''2020'' [''2020.acl-main.1'', ''2020.acl-main.2'']) ''papers''
        = Some (VStrs [''2020.acl-main.1'', ''2020.acl-main.2''])
   \<and> map_of (ex_volume_record ''2020'' [''2020.acl-main.1'', ''2020.acl-main.2'']) ''editor''
        = Some (VStrs [''jane-doe''])
   \<and> map_of (ex_volume_record ''2020'' [''2020.acl-main.1'', ''2020.acl-main.2'']) ''abstract_html''
        = None"
proof -
  have h2: "distinct_full_ids (volumes ex_anthology)"
    by code_simp
  have h3: "(''2020.acl-main'', ex_volume ''2020.acl-main'' ''2020'' [''2020.acl-main.1'', ''2020.acl-main.2''])
              \<in> set (volumes ex_anthology)"
    by (simp add: ex_anthology_def ex_volumes_def)
  have l: "map_of (r_volumes ex_records) ''2020.acl-main''
             = Some (ex_volume_record ''2020'' [''2020.acl-main.1'', ''2020.acl-main.2''])"
    by (simp add: ex_records_def)
  have f: "map_of (ex_volume_record ''2020'' [''2020.acl-main.1'', ''2020.acl-main.2'']) ''papers''
             = Some (VStrs [''2020.acl-main.1'', ''2020.acl-main.2''])"
          "map_of (ex_volume_record ''2020'' [''2020.acl-main.1'', ''2020.acl-main.2'']) ''editor''
             = Some (VStrs [''jane-doe''])"
          "map_of (ex_volume_record ''2020'' [''2020.acl-main.1'', ''2020.acl-main.2'']) ''abstract_html''
             = None"
    by (simp_all add: ex_volume_record_def)
  show ?thesis
    using volume_record_shape[OF ex_export_dry h2 h3] ex_export_dry h2 h3 l f
    by simp
qed

subsection \<open>Venue records\<close>

lemma update_fresh: "k \<notin> fst ` set al \<Longrightarrow> AList.update k v al = al @ [(k, v)]"
  by (induction al) auto

lemma volume_year_is_Inr:
  "volume_year_is vols yr k = Inr b \<Longrightarrow>
     b = (stored_year vols k = Some (VStr yr)) \<and> stored_year vols k \<noteq> None"
  by (auto simp: volume_year_is_def py_getitem_def stored_year_def split: option.splits)

lemma volume_year_is_Inl:
  "volume_year_is vols yr k = Inl e \<Longrightarrow> e = KeyError \<and> stored_year vols k = None"
  by (auto simp: volume_year_is_def py_getitem_def stored_year_def split: option.splits)

lemma filter_year_Inr:
  "filter_year vols yr ks = Inr r \<Longrightarrow>
     r = filter (\<lambda>k. stored_year vols k = Some (VStr yr)) ks
     \<and> (\<forall>k \<in> set ks. stored_year vols k \<noteq> None)"
proof (induction ks arbitrary: r)
  case Nil
  then show ?case by simp
next
  case (Cons k ks)
  from Cons.prems obtain b r' where
    b: "volume_year_is vols yr k = Inr b" and r': "filter_year vols yr ks = Inr r'"
    and r: "r = (if b then k # r' else r')"
    by (auto split: sum.splits)
  from volume_year_is_Inr[OF b] Cons.IH[OF r'] r show ?case by auto
qed

lemma filter_year_Inl:
  "filter_year vols yr ks = Inl e \<Longrightarrow> e = KeyError \<and> (\<exists>k \<in> set ks. stored_year vols k = None)"
  by (induction ks) (auto split: sum.splits dest: volume_year_is_Inl)

lemma filter_year_ok:
  "\<forall>k \<in> set ks. stored_year vols k \<noteq> None \<Longrightarrow> \<exists>r. filter_year vols yr ks = Inr r"
proof (induction ks)
  case Nil
  then show ?case by simp
next
  case (Cons k ks)
  then obtain r where r: "filter_year vols yr ks = Inr r" by auto
  from Cons.prems have "stored_year vols k \<noteq> None" by simp
  then obtain b where "volume_year_is vols yr k = Inr b"
    by (cases "volume_year_is vols yr k") (auto dest: volume_year_is_Inl)
  with r show ?case by simp
qed

lemma by_year_loop_Inr:
  assumes "by_year_loop vols data ys acc = Inr r"
      and "map_of data ''volumes'' = Some vv" and "iter_strs vv = Inr ks"
      and "distinct ys" and "set ys \<inter> fst ` set acc = {}"
  shows "r = acc @ map (\<lambda>y. (y, sort (filter (\<lambda>k. stored_year vols k = Some (VStr y)) ks))) ys"
  using assms(1,4,5)
proof (induction ys arbitrary: acc)
  case Nil
  then show ?case by simp
next
  case (Cons y ys)
  from Cons.prems(1) assms(2,3) obtain r0 where
    r0: "filter_year vols y ks = Inr r0" and
    rest: "by_year_loop vols data ys (AList.update y (sort r0) acc) = Inr r"
    by (auto simp: py_getitem_def split: sum.splits)
  from Cons.prems(3) have "y \<notin> fst ` set acc" by auto
  then have upd: "AList.update y (sort r0) acc = acc @ [(y, sort r0)]"
    by (rule update_fresh)
  have "set ys \<inter> fst ` set (acc @ [(y, sort r0)]) = {}"
    using Cons.prems(2,3) by auto
  from Cons.IH[OF rest[unfolded upd] _ this] Cons.prems(2) filter_year_Inr[OF r0]
  show ?case by simp
qed

lemma venue_record_Inr:
  assumes "venue_record vols data = Inr d"
  shows "\<exists>yv ys by_year. map_of data ''years'' = Some yv \<and> iter_strs yv = Inr ys
           \<and> by_year_loop vols data (sort ys) [] = Inr by_year
           \<and> map_of data ''volumes'' \<noteq> None
           \<and> d = AList.delete ''volumes''
                   (AList.update ''years'' (VStrs (sort ys))
                     (AList.update ''volumes_by_year'' (VByYear by_year) data))"
  using assms
  by (auto simp: venue_record_def py_getitem_def py_del_def Let_def update_conv'
           split: option.splits sum.splits if_splits)

lemma venues_loop_lookup:
  assumes "venues_loop vols vs idx = Inr idx'"
      and "distinct (map fst vs)"
  shows "map_of idx' k = Some d \<longleftrightarrow>
           (\<exists>data. (k, data) \<in> set vs \<and> venue_record vols data = Inr d)
         \<or> (k \<notin> fst ` set vs \<and> map_of idx k = Some d)"
  using assms
proof (induction vs arbitrary: idx)
  case Nil
  then show ?case by simp
next
  case (Cons kv vs)
  obtain acr data where kv: "kv = (acr, data)" by (cases kv)
  from Cons.prems(1) obtain d0 where
    d0: "venue_record vols data = Inr d0" and
    rest: "venues_loop vols vs (AList.update acr d0 idx) = Inr idx'"
    by (auto simp: kv split: sum.splits)
  from Cons.prems(2) have dist: "distinct (map fst vs)" and fresh: "acr \<notin> fst ` set vs"
    by (auto simp: kv)
  note IH = Cons.IH[OF rest dist]
  show ?case
    unfolding IH using fresh d0 by (auto simp: kv update_conv' image_iff)
qed

lemma venues_loop_all_ok:
  "venues_loop vols vs idx = Inr idx' \<Longrightarrow> kv \<in> set vs \<Longrightarrow> \<exists>d. venue_record vols (snd kv) = Inr d"
  by (induction vs arbitrary: idx) (auto split: sum.splits)

text \<open>
  C6. When the export returns, the record of a venue whose \<open>years\<close> are the pairwise
  different years \<open>ys\<close> and whose \<open>volumes\<close> are the ids \<open>ks\<close> is in the venue index
  under the venue's acronym. Its \<open>volumes_by_year\<close> has one entry for each year of
  \<open>ys\<close>, in ascending order, and the entry of a year is the sorted list of those ids of
  \<open>ks\<close> whose record in the built volume index has that year; its \<open>years\<close> is \<open>ys\<close>
  sorted in ascending order; it has no key \<open>volumes\<close>; the other keys are the venue's.
\<close>

theorem venue_volumes_by_year:
  assumes "result (export_anthology a outdir dryrun fs) = Inr recs"
      and "distinct (map fst (venues a))"
      and "(acronym, data) \<in> set (venues a)"
      and "map_of data ''years'' = Some yv" and "iter_strs yv = Inr ys" and "distinct ys"
      and "map_of data ''volumes'' = Some vv" and "iter_strs vv = Inr ks"
  shows "\<exists>d. map_of (r_venues recs) acronym = Some d
           \<and> map_of d ''volumes_by_year'' =
               Some (VByYear (map (\<lambda>y. (y, sort (filter
                        (\<lambda>k. stored_year (r_volumes recs) k = Some (VStr y)) ks))) (sort ys)))
           \<and> map_of d ''years'' = Some (VStrs (sort ys))
           \<and> sorted (sort ys) \<and> set (sort ys) = set ys
           \<and> map_of d ''volumes'' = None
           \<and> (\<forall>k. k \<notin> {''volumes_by_year'', ''years'', ''volumes''} \<longrightarrow>
                  map_of d k = map_of data k)"
proof -
  have loop: "venues_loop (r_volumes recs) (venues a) [] = Inr (r_venues recs)"
    using export_Inr(5)[OF assms(1)] by (simp add: build_venues_def)
  from venues_loop_all_ok[OF loop assms(3)]
  obtain d where d: "venue_record (r_volumes recs) data = Inr d" by auto
  have at: "map_of (r_venues recs) acronym = Some d"
    unfolding venues_loop_lookup[OF loop assms(2)] using assms(3) d by blast
  from venue_record_Inr[OF d] assms(4,5) obtain by_year where
    by_year: "by_year_loop (r_volumes recs) data (sort ys) [] = Inr by_year"
    and d_eq: "d = AList.delete ''volumes''
                   (AList.update ''years'' (VStrs (sort ys))
                     (AList.update ''volumes_by_year'' (VByYear by_year) data))"
    by auto
  have "by_year = [] @ map (\<lambda>y. (y, sort (filter
                    (\<lambda>k. stored_year (r_volumes recs) k = Some (VStr y)) ks))) (sort ys)"
    using by_year assms(7,8) by (rule by_year_loop_Inr) (simp_all add: assms(6))
  then show ?thesis
    using at by (simp add: d_eq update_conv' delete_conv')
qed

theorem venue_volumes_by_year_witness:
  "result (export_anthology ex_anthology ''out'' True ex_fs) = Inr ex_records
   \<and> distinct (map fst (venues ex_anthology))
   \<and> (''ACL'', ex_venue) \<in> set (venues ex_anthology)
   \<and> map_of ex_venue ''years'' = Some (VSet [''2020'', ''2019''])
   \<and> distinct [''2020'', ''2019'']
   \<and> map_of ex_venue ''volumes'' = Some (VStrs [''2020.acl-main'', ''2019.acl-main'', ''2020.acl-demos''])
   \<and> map_of (r_venues ex_records) ''ACL'' = Some ex_venue_record
   \<and> map_of ex_venue_record ''volumes_by_year''
        = Some (VByYear [(''2019'', [''2019.acl-main'']),
                         (''2020'', [''2020.acl-demos'', ''2020.acl-main''])])
   \<and> map_of ex_venue_record ''years'' = Some (VStrs [''2019'', ''2020''])
   \<and> map_of ex_venue_record ''volumes'' = None"
proof -
  have h2: "distinct (map fst (venues ex_anthology))"
    by (simp add: ex_anthology_def)
  have h3: "(''ACL'', ex_venue) \<in> set (venues ex_anthology)"
    by (simp add: ex_anthology_def)
  have h4: "map_of ex_venue ''years'' = Some (VSet [''2020'', ''2019''])"
    by (simp add: ex_venue_def)
  have h5: "iter_strs (VSet [''2020'', ''2019'']) = Inr [''2020'', ''2019'']"
    by (simp add: iter_strs_def)
  have h6: "distinct [''2020'', ''2019'']"
    by simp
  have h7: "map_of ex_venue ''volumes''
              = Some (VStrs [''2020.acl-main'', ''2019.acl-main'', ''2020.acl-demos''])"
    by (simp add: ex_venue_def)
  have h8: "iter_strs (VStrs [''2020.acl-main'', ''2019.acl-main'', ''2020.acl-demos''])
              = Inr [''2020.acl-main'', ''2019.acl-main'', ''2020.acl-demos'']"
    by (simp add: iter_strs_def)
  have l: "map_of (r_venues ex_records) ''ACL'' = Some ex_venue_record"
    by (simp add: ex_records_def)
  have f: "map_of ex_venue_record ''volumes_by_year''
             = Some (VByYear [(''2019'', [''2019.acl-main'']),
                              (''2020'', [''2020.acl-demos'', ''2020.acl-main''])])"
          "map_of ex_venue_record ''years'' = Some (VStrs [''2019'', ''2020''])"
          "map_of ex_venue_record ''volumes'' = None"
    by (simp_all add: ex_venue_record_def)
  show ?thesis
    using venue_volumes_by_year[OF ex_export_dry h2 h3 h4 h5 h6 h7 h8]
          ex_export_dry h2 h3 h4 h6 h7 l f
    by blast
qed

subsection \<open>Sorting in descending order\<close>

lemma mset_sorted_desc: "mset (sorted_desc f xs) = mset xs"
  by (simp add: sorted_desc_def)

lemma sorted_desc_descending: "sorted_wrt (\<lambda>x y. x \<ge> y) (map f (sorted_desc f xs))"
proof -
  have "sorted (map f (sort_key f (rev xs)))" by (rule sorted_sort_key)
  then show ?thesis
    by (simp add: sorted_desc_def rev_map[symmetric] sorted_wrt_rev)
qed

lemma sorted_desc_stable:
  "filter (\<lambda>x. f x = k) (sorted_desc f xs) = filter (\<lambda>x. f x = k) xs"
proof -
  have "filter (\<lambda>x. f x = k) (sorted_desc f xs) = rev (filter (\<lambda>x. f x = k) (sort_key f (rev xs)))"
    by (simp add: sorted_desc_def rev_filter)
  also have "\<dots> = rev (filter (\<lambda>x. f x = k) (rev xs))"
    by (simp only: sort_key_stable)
  also have "\<dots> = filter (\<lambda>x. f x = k) xs"
    by (simp add: rev_filter)
  finally show ?thesis .
qed

subsection \<open>People records\<close>

lemma sorted_papers_Inr:
  "sorted_papers a ps = Inr r \<Longrightarrow>
     r = sorted_desc (year_key a) ps \<and> (\<forall>p \<in> set ps. map_of (papers a) p \<noteq> None)"
  by (auto simp: sorted_papers_def split: if_splits)

lemma year_key_resolved:
  "map_of (papers a) p = Some pp \<Longrightarrow> year_key a p = year pp"
  by (simp add: year_key_def paper_year_def)

lemma coauthor_pairs_Inr:
  "coauthor_pairs pi cs = Inr r \<Longrightarrow>
     map (\<lambda>c. (get_slug pi (fst c), snd c)) cs = map (\<lambda>sc. (Some (fst sc), snd sc)) r"
  by (induction cs arbitrary: r) (auto split: option.splits sum.splits)

lemma canonical_fields_Inr:
  assumes "canonical_fields a n d1 = Inr d"
  shows "map_of d ''papers'' = Some (VStrs (sorted_desc (year_key a) (get_papers (people a) n)))"
    and "\<forall>p \<in> set (get_papers (people a) n). map_of (papers a) p \<noteq> None"
    and "\<exists>cs. coauthor_pairs (people a) (get_coauthors (people a) n) = Inr cs
            \<and> map_of d ''coauthors'' = Some (VCounts (sorted_desc snd cs))"
    and "map_of d ''venues'' =
           Some (VCounts (sorted_desc snd (get_venues (people a) (venues a) n)))"
    and "has_variants (people a) n \<Longrightarrow>
           \<exists>vs. get_slugs (people a) (get_registered_variants (people a) n) = Inr vs
              \<and> map_of d ''variant_entries'' = Some (VStrs vs)"
    and "\<And>k. k \<notin> set aggregate_keys \<Longrightarrow> map_of d k = map_of d1 k"
  using assms
  by (auto simp: canonical_fields_def Let_def update_conv' aggregate_keys_def
           split: sum.splits if_splits dest!: sorted_papers_Inr)

lemma variant_fields_Inr:
  assumes "variant_fields a n d1 = Inr d"
  shows "\<exists>s. get_slug (people a) (get_canonical_variant (people a) n) = Some s
           \<and> d = AList.update ''canonical_entry'' (VStr s) d1"
  using assms by (auto simp: variant_fields_def split: option.splits)

lemma person_record_Inr:
  assumes "person_record a n = Inr (slug, d)"
  shows "get_slug (people a) n = Some slug"
    and "is_canonical (people a) n \<Longrightarrow>
           canonical_fields a n (AList.update ''slug'' (VStr slug) (name_as_dict (people a) n)) = Inr d"
    and "\<not> is_canonical (people a) n \<Longrightarrow>
           variant_fields a n (AList.update ''slug'' (VStr slug) (name_as_dict (people a) n)) = Inr d"
  using assms
  by (auto simp: person_record_def Let_def split: option.splits sum.splits if_splits)

subsection \<open>The people loop\<close>

lemma people_loop_all_ok:
  "people_loop a ns idx = Inr idx' \<Longrightarrow> n \<in> set ns \<Longrightarrow>
     \<exists>c cs d. person_record a n = Inr (c # cs, d)"
  by (induction ns arbitrary: idx) (auto split: sum.splits list.splits)

lemma people_loop_lookup:
  assumes "people_loop a ns idx = Inr idx'"
      and "distinct (map (get_slug (people a)) ns)"
  shows "lookup2 idx' g s = Some d \<longleftrightarrow>
           (\<exists>n \<in> set ns. \<exists>c cs. person_record a n = Inr (c # cs, d) \<and> s = c # cs \<and> g = [c])
         \<or> ((\<forall>n \<in> set ns. \<forall>c cs. get_slug (people a) n = Some (c # cs) \<longrightarrow> \<not> (s = c # cs \<and> g = [c]))
              \<and> lookup2 idx g s = Some d)"
  using assms
proof (induction ns arbitrary: idx)
  case Nil
  then show ?case by simp
next
  case (Cons n ns)
  from Cons.prems(1) obtain c cs d0 where
    d0: "person_record a n = Inr (c # cs, d0)" and
    rest: "people_loop a ns (dd_set [c] (c # cs) d0 idx) = Inr idx'"
    by (auto split: sum.splits list.splits)
  have slug: "get_slug (people a) n = Some (c # cs)"
    by (rule person_record_Inr(1)[OF d0])
  from Cons.prems(2) have dist: "distinct (map (get_slug (people a)) ns)"
    and fresh: "\<forall>n' \<in> set ns. get_slug (people a) n' \<noteq> Some (c # cs)"
    by (auto simp: slug image_iff)
  have fresh': "\<forall>n' \<in> set ns. \<forall>d'. person_record a n' \<noteq> Inr (c # cs, d')"
    using fresh by (auto dest: person_record_Inr(1))
  note IH = Cons.IH[OF rest dist]
  show ?case
    unfolding IH lookup2_dd_set using fresh fresh' d0 slug by auto
qed

lemma people_loop_keys_unique:
  "people_loop a ns idx = Inr idx' \<Longrightarrow> keys_unique idx \<Longrightarrow> keys_unique idx'"
proof (induction ns arbitrary: idx)
  case Nil
  then show ?case by simp
next
  case (Cons n ns)
  from Cons.prems(1) obtain c cs d0 where
    rest: "people_loop a ns (dd_set [c] (c # cs) d0 idx) = Inr idx'"
    by (auto split: sum.splits list.splits)
  from Cons.IH[OF rest keys_unique_dd_set[OF Cons.prems(2)]] show ?case .
qed

lemma people_loop_entries:
  assumes "people_loop a ns idx = Inr idx'"
      and "distinct (map (get_slug (people a)) ns)"
      and "\<forall>n \<in> set ns. \<forall>g s. get_slug (people a) n = Some s \<longrightarrow> lookup2 idx g s = None"
  shows "entries idx' = entries idx + length ns"
  using assms
proof (induction ns arbitrary: idx)
  case Nil
  then show ?case by simp
next
  case (Cons n ns)
  from Cons.prems(1) obtain c cs d0 where
    d0: "person_record a n = Inr (c # cs, d0)" and
    rest: "people_loop a ns (dd_set [c] (c # cs) d0 idx) = Inr idx'"
    by (auto split: sum.splits list.splits)
  have slug: "get_slug (people a) n = Some (c # cs)"
    by (rule person_record_Inr(1)[OF d0])
  from Cons.prems(2) have dist: "distinct (map (get_slug (people a)) ns)"
    and fresh: "\<forall>n' \<in> set ns. get_slug (people a) n' \<noteq> Some (c # cs)"
    by (auto simp: slug image_iff)
  have "\<forall>n' \<in> set ns. \<forall>g s. get_slug (people a) n' = Some s \<longrightarrow>
          lookup2 (dd_set [c] (c # cs) d0 idx) g s = None"
    using Cons.prems(3) fresh by (auto simp: lookup2_dd_set)
  from Cons.IH[OF rest dist this] Cons.prems(3) slug
  show ?case by (simp add: entries_dd_set)
qed

lemma people_loop_IndexError:
  assumes "list_all (\<lambda>m. \<not> isl (person_record a m)) ns"
      and "\<exists>n \<in> set ns. get_slug (people a) n = Some []"
  shows "people_loop a ns idx = Inl IndexError"
  using assms
proof (induction ns arbitrary: idx)
  case Nil
  then show ?case by simp
next
  case (Cons m ns)
  from Cons.prems(1) obtain slug d where r: "person_record a m = Inr (slug, d)"
    by (cases "person_record a m") auto
  have slug: "get_slug (people a) m = Some slug"
    by (rule person_record_Inr(1)[OF r])
  show ?case
  proof (cases slug)
    case Nil
    with r show ?thesis by simp
  next
    case (Cons c cs)
    with slug Cons.prems(2) have "\<exists>n \<in> set ns. get_slug (people a) n = Some []" by auto
    moreover from Cons.prems(1) have "list_all (\<lambda>m. \<not> isl (person_record a m)) ns" by simp
    ultimately have "people_loop a ns (dd_set [c] slug d idx) = Inl IndexError"
      by (rule Cons.IH[rotated])
    with r Cons show ?thesis by simp
  qed
qed

lemma build_people_failed:
  "build_people a = Inl e \<Longrightarrow> \<exists>e'. snd (build_records a) = Inl e'"
  by (simp add: build_records_def split: sum.splits)

lemma build_people_lookup:
  assumes "result (export_anthology a outdir dryrun fs) = Inr recs"
      and "n \<in> set (names (people a))"
  shows "\<exists>c cs d. get_slug (people a) n = Some (c # cs) \<and> person_record a n = Inr (c # cs, d)
           \<and> (unique_slugs (people a) \<longrightarrow>
                 lookup2 (r_people recs) [c] (c # cs) = Some d
                 \<and> (\<forall>g. g \<noteq> [c] \<longrightarrow> lookup2 (r_people recs) g (c # cs) = None))"
proof -
  have loop: "people_loop a (names (people a)) [] = Inr (r_people recs)"
    using export_Inr(3)[OF assms(1)] by (simp add: build_people_def)
  from people_loop_all_ok[OF loop assms(2)]
  obtain c cs d where d: "person_record a n = Inr (c # cs, d)" by blast
  have slug: "get_slug (people a) n = Some (c # cs)"
    by (rule person_record_Inr(1)[OF d])
  have "lookup2 (r_people recs) [c] (c # cs) = Some d
          \<and> (\<forall>g. g \<noteq> [c] \<longrightarrow> lookup2 (r_people recs) g (c # cs) = None)"
    if u: "unique_slugs (people a)"
  proof -
    have dist: "distinct (map (get_slug (people a)) (names (people a)))"
      using u by (simp add: unique_slugs_def)
    have "lookup2 (r_people recs) [c] (c # cs) = Some d"
      unfolding people_loop_lookup[OF loop dist] using assms(2) d by blast
    moreover have "lookup2 (r_people recs) g (c # cs) = None" if "g \<noteq> [c]" for g
    proof (cases "lookup2 (r_people recs) g (c # cs)")
      case None
      then show ?thesis .
    next
      case (Some d')
      then show ?thesis
        unfolding people_loop_lookup[OF loop dist] using that by (auto simp: lookup2_Nil)
    qed
    ultimately show ?thesis by blast
  qed
  with slug d show ?thesis by blast
qed

lemma ex_unique_slugs: "unique_slugs (people ex_anthology)"
  by code_simp

text \<open>
  C10. The bucket of a people record is the first character of the slug. When the export
  returns, every name of the people index has a non-empty slug and a record, and, the
  slugs of the names being pairwise different, that record is in the people index under
  the slug's first character and the slug, and under no other bucket; the index then has
  as many records as there are names, and no key twice. When some name has the empty
  string as its slug, the people index is not built and the export raises: \<open>IndexError\<close>,
  from \<open>slug[0]\<close>, when the record of every name can be built, so that line 116 is
  reached for that name.
\<close>

theorem people_bucket_by_first_char:
  "(result (export_anthology a outdir dryrun fs) = Inr recs \<and> n \<in> set (names (people a)) \<longrightarrow>
      (\<exists>c cs d. get_slug (people a) n = Some (c # cs) \<and> person_record a n = Inr (c # cs, d)
          \<and> (unique_slugs (people a) \<longrightarrow>
                lookup2 (r_people recs) [c] (c # cs) = Some d
                \<and> (\<forall>g. g \<noteq> [c] \<longrightarrow> lookup2 (r_people recs) g (c # cs) = None))))
   \<and> (result (export_anthology a outdir dryrun fs) = Inr recs \<and> unique_slugs (people a) \<longrightarrow>
        entries (r_people recs) = length (names (people a)) \<and> keys_unique (r_people recs))
   \<and> (n \<in> set (names (people a)) \<and> get_slug (people a) n = Some [] \<longrightarrow>
        (\<exists>e. build_people a = Inl e)
        \<and> (\<exists>e. result (export_anthology a outdir dryrun fs) = Inl e)
        \<and> (list_all (\<lambda>m. \<not> isl (person_record a m)) (names (people a)) \<longrightarrow>
              build_people a = Inl IndexError))"
proof (intro conjI impI)
  assume h: "result (export_anthology a outdir dryrun fs) = Inr recs \<and> n \<in> set (names (people a))"
  from h have r: "result (export_anthology a outdir dryrun fs) = Inr recs"
    and n: "n \<in> set (names (people a))" by simp_all
  show "\<exists>c cs d. get_slug (people a) n = Some (c # cs) \<and> person_record a n = Inr (c # cs, d)
          \<and> (unique_slugs (people a) \<longrightarrow>
                lookup2 (r_people recs) [c] (c # cs) = Some d
                \<and> (\<forall>g. g \<noteq> [c] \<longrightarrow> lookup2 (r_people recs) g (c # cs) = None))"
    by (rule build_people_lookup[OF r n])
next
  assume h: "result (export_anthology a outdir dryrun fs) = Inr recs \<and> unique_slugs (people a)"
  from h have r: "result (export_anthology a outdir dryrun fs) = Inr recs"
    and u: "unique_slugs (people a)" by simp_all
  have loop: "people_loop a (names (people a)) [] = Inr (r_people recs)"
    using export_Inr(3)[OF r] by (simp add: build_people_def)
  have dist: "distinct (map (get_slug (people a)) (names (people a)))"
    using u by (simp add: unique_slugs_def)
  show "entries (r_people recs) = length (names (people a))"
    using people_loop_entries[OF loop dist] by (simp add: lookup2_Nil entries_def)
  show "keys_unique (r_people recs)"
    using people_loop_keys_unique[OF loop] by (simp add: keys_unique_def)
next
  assume h: "n \<in> set (names (people a)) \<and> get_slug (people a) n = Some []"
  from h have n: "n \<in> set (names (people a))" and s: "get_slug (people a) n = Some []"
    by simp_all
  have no: "people_loop a (names (people a)) [] \<noteq> Inr idx'" for idx'
  proof
    assume l: "people_loop a (names (people a)) [] = Inr idx'"
    from people_loop_all_ok[OF l n] obtain c cs d where "person_record a n = Inr (c # cs, d)"
      by blast
    from person_record_Inr(1)[OF this] s show False by simp
  qed
  show e: "\<exists>e. build_people a = Inl e"
  proof (cases "build_people a")
    case (Inl e)
    then show ?thesis by blast
  next
    case (Inr idx')
    with no[of idx'] show ?thesis by (simp add: build_people_def)
  qed
  then obtain e where "build_people a = Inl e" ..
  from build_people_failed[OF this] obtain e' where "snd (build_records a) = Inl e'" ..
  then show "\<exists>e. result (export_anthology a outdir dryrun fs) = Inl e"
    by (rule export_failed_build_disk(2))
  assume la: "list_all (\<lambda>m. \<not> isl (person_record a m)) (names (people a))"
  have ex: "\<exists>n \<in> set (names (people a)). get_slug (people a) n = Some []"
    using n s by blast
  show "build_people a = Inl IndexError"
    unfolding build_people_def by (rule people_loop_IndexError[OF la ex])
qed

theorem people_bucket_by_first_char_witness:
  "result (export_anthology ex_anthology ''out'' True ex_fs) = Inr ex_records
   \<and> ''Jane Doe'' \<in> set (names (people ex_anthology))
   \<and> unique_slugs (people ex_anthology)
   \<and> get_slug (people ex_anthology) ''Jane Doe'' = Some ''jane-doe''
   \<and> lookup2 (r_people ex_records) ''j'' ''jane-doe'' = Some ex_jane_record
   \<and> entries (r_people ex_records) = length (names (people ex_anthology))
   \<and> ''J. Doe'' \<in> set (names (people ex_empty_slug))
   \<and> get_slug (people ex_empty_slug) ''J. Doe'' = Some []
   \<and> list_all (\<lambda>m. \<not> isl (person_record ex_empty_slug m)) (names (people ex_empty_slug))
   \<and> build_people ex_empty_slug = Inl IndexError
   \<and> result (export_anthology ex_empty_slug ''out'' True ex_fs) = Inl IndexError"
proof -
  have h1: "''Jane Doe'' \<in> set (names (people ex_anthology))"
    by (simp add: ex_anthology_def ex_people_def)
  have s1: "get_slug (people ex_anthology) ''Jane Doe'' = Some ''jane-doe''"
    by (simp add: ex_anthology_def ex_people_def)
  have l1: "lookup2 (r_people ex_records) ''j'' ''jane-doe'' = Some ex_jane_record"
    by code_simp
  have h2: "''J. Doe'' \<in> set (names (people ex_empty_slug))"
    by (simp add: ex_empty_slug_def ex_anthology_def ex_people_def)
  have s2: "get_slug (people ex_empty_slug) ''J. Doe'' = Some []"
    by (simp add: ex_empty_slug_def ex_anthology_def ex_people_def)
  have a2: "list_all (\<lambda>m. \<not> isl (person_record ex_empty_slug m)) (names (people ex_empty_slug))"
    by code_simp
  have r2: "result (export_anthology ex_empty_slug ''out'' True ex_fs) = Inl IndexError"
    by code_simp
  show ?thesis
    using people_bucket_by_first_char[of ex_anthology "''out''" True ex_fs ex_records "''Jane Doe''"]
          people_bucket_by_first_char[of ex_empty_slug "''out''" True ex_fs ex_records "''J. Doe''"]
          ex_export_dry ex_unique_slugs h1 s1 l1 h2 s2 a2 r2
    by simp
qed

text \<open>
  C4 (as the claim states it, refuted). Here the people index attributes the paper
  \<open>2020.acl-main.1\<close> twice to the canonical name \<open>Jane Doe\<close>. The export returns, and
  the \<open>papers\<close> field of her record keeps both occurrences: it has three entries, for two
  distinct papers.
\<close>

theorem repeated_paper_kept:
  "is_canonical (people ex_repeated) ''Jane Doe''
   \<and> get_papers (people ex_repeated) ''Jane Doe''
       = [''2020.acl-main.1'', ''2019.emnlp-main.7'', ''2020.acl-main.1'']
   \<and> card (set (get_papers (people ex_repeated) ''Jane Doe'')) = 2
   \<and> \<not> isl (result (export_anthology ex_repeated ''out'' True ex_fs))
   \<and> lookup2 (r_people (projr (result (export_anthology ex_repeated ''out'' True ex_fs))))
         ''j'' ''jane-doe''
       = Some [(''full'', VStr ''Jane Doe''), (''slug'', VStr ''jane-doe''),
               (''papers'', VStrs [''2020.acl-main.1'', ''2020.acl-main.1'', ''2019.emnlp-main.7'']),
               (''coauthors'', VCounts []),
               (''venues'', VCounts [(''ACL'', 2), (''EMNLP'', 1)]),
               (''variant_entries'', VStrs [''j-doe''])]
   \<and> length [''2020.acl-main.1'', ''2020.acl-main.1'', ''2019.emnlp-main.7''] = 3"
  by code_simp

text \<open>
  C4 (amended). When the export returns and the slugs of the names are pairwise
  different, the record of a canonical name is in the people index under the slug's first
  character and the slug, and its \<open>papers\<close> field is a list \<open>ps\<close> with the same elements,
  each as often, as the list of paper ids that the people index attributes to the name
  and its variants; \<open>ps\<close> is in descending order of the papers' years; papers of the same
  year are in the order in which the people index lists them; every id of \<open>ps\<close> is a key
  of the paper collection and the sort key is that paper's year; \<open>ps\<close> is as long as the
  attributed list, and that is the number of distinct attributed papers exactly when the
  attributed list has no repetition.
\<close>

theorem canonical_papers_sorted:
  assumes "result (export_anthology a outdir dryrun fs) = Inr recs"
      and "unique_slugs (people a)"
      and "n \<in> set (names (people a))"
      and "is_canonical (people a) n"
  shows "\<exists>c cs d ps. get_slug (people a) n = Some (c # cs)
           \<and> lookup2 (r_people recs) [c] (c # cs) = Some d
           \<and> map_of d ''papers'' = Some (VStrs ps)
           \<and> mset ps = mset (get_papers (people a) n)
           \<and> sorted_wrt (\<lambda>x y. x \<ge> y) (map (year_key a) ps)
           \<and> (\<forall>y. filter (\<lambda>p. year_key a p = y) ps
                     = filter (\<lambda>p. year_key a p = y) (get_papers (people a) n))
           \<and> (\<forall>p \<in> set ps. \<exists>pp. map_of (papers a) p = Some pp \<and> year_key a p = year pp)
           \<and> length ps = length (get_papers (people a) n)
           \<and> (length ps = card (set (get_papers (people a) n))
                 \<longleftrightarrow> distinct (get_papers (people a) n))"
proof -
  from build_people_lookup[OF assms(1,3)] assms(2) obtain c cs d where
    slug: "get_slug (people a) n = Some (c # cs)" and
    d: "person_record a n = Inr (c # cs, d)" and
    at: "lookup2 (r_people recs) [c] (c # cs) = Some d"
    by blast
  let ?xs = "get_papers (people a) n"
  let ?ps = "sorted_desc (year_key a) ?xs"
  note cf = canonical_fields_Inr[OF person_record_Inr(2)[OF d assms(4)]]
  have "mset ?ps = mset ?xs" by (rule mset_sorted_desc)
  moreover from this have len: "length ?ps = length ?xs" by (rule mset_eq_length)
  moreover have "\<forall>p \<in> set ?ps. \<exists>pp. map_of (papers a) p = Some pp \<and> year_key a p = year pp"
    using cf(2) by (auto simp: sorted_desc_def dest: year_key_resolved)
  moreover have "length ?ps = card (set ?xs) \<longleftrightarrow> distinct ?xs"
    by (metis len card_distinct distinct_card)
  ultimately show ?thesis
    using slug at cf(1) sorted_desc_descending[of "year_key a" ?xs]
          sorted_desc_stable[of "year_key a" _ ?xs]
    by blast
qed

theorem canonical_papers_sorted_witness:
  "result (export_anthology ex_anthology ''out'' True ex_fs) = Inr ex_records
   \<and> unique_slugs (people ex_anthology)
   \<and> ''Jane Doe'' \<in> set (names (people ex_anthology))
   \<and> is_canonical (people ex_anthology) ''Jane Doe''
   \<and> get_papers (people ex_anthology) ''Jane Doe''
        = [''2019.emnlp-main.7'', ''2020.acl-main.1'', ''2020.acl-main.2'']
   \<and> lookup2 (r_people ex_records) ''j'' ''jane-doe'' = Some ex_jane_record
   \<and> map_of ex_jane_record ''papers''
        = Some (VStrs [''2020.acl-main.1'', ''2020.acl-main.2'', ''2019.emnlp-main.7''])"
proof -
  have h3: "''Jane Doe'' \<in> set (names (people ex_anthology))"
    by (simp add: ex_anthology_def ex_people_def)
  have h4: "is_canonical (people ex_anthology) ''Jane Doe''"
    by (simp add: ex_anthology_def ex_people_def)
  have g: "get_papers (people ex_anthology) ''Jane Doe''
             = [''2019.emnlp-main.7'', ''2020.acl-main.1'', ''2020.acl-main.2'']"
    by (simp add: ex_anthology_def ex_people_def)
  have l: "lookup2 (r_people ex_records) ''j'' ''jane-doe'' = Some ex_jane_record"
    by code_simp
  have f: "map_of ex_jane_record ''papers''
             = Some (VStrs [''2020.acl-main.1'', ''2020.acl-main.2'', ''2019.emnlp-main.7''])"
    by (simp add: ex_jane_record_def)
  show ?thesis
    using canonical_papers_sorted[OF ex_export_dry ex_unique_slugs h3 h4]
          ex_export_dry ex_unique_slugs h3 h4 g l f
    by blast
qed

text \<open>
  C5. When the export returns and the slugs of the names are pairwise different, the
  record of a name that is not canonical is in the people index under the slug's first
  character and the slug; its \<open>canonical_entry\<close> is the slug of the name's canonical
  variant; and it has none of the keys \<open>papers\<close>, \<open>coauthors\<close>, \<open>venues\<close> and
  \<open>variant_entries\<close>, the name's own dictionary having none of them.
\<close>

theorem variant_record_shape:
  assumes "result (export_anthology a outdir dryrun fs) = Inr recs"
      and "unique_slugs (people a)"
      and "n \<in> set (names (people a))"
      and "\<not> is_canonical (people a) n"
      and "\<forall>k \<in> set aggregate_keys. map_of (name_as_dict (people a) n) k = None"
  shows "\<exists>c cs d s. get_slug (people a) n = Some (c # cs)
           \<and> lookup2 (r_people recs) [c] (c # cs) = Some d
           \<and> get_slug (people a) (get_canonical_variant (people a) n) = Some s
           \<and> map_of d ''canonical_entry'' = Some (VStr s)
           \<and> map_of d ''papers'' = None
           \<and> map_of d ''coauthors'' = None
           \<and> map_of d ''venues'' = None
           \<and> map_of d ''variant_entries'' = None"
proof -
  from build_people_lookup[OF assms(1,3)] assms(2) obtain c cs d where
    slug: "get_slug (people a) n = Some (c # cs)" and
    d: "person_record a n = Inr (c # cs, d)" and
    at: "lookup2 (r_people recs) [c] (c # cs) = Some d"
    by blast
  from variant_fields_Inr[OF person_record_Inr(3)[OF d assms(4)]] obtain s where
    s: "get_slug (people a) (get_canonical_variant (people a) n) = Some s" and
    d_eq: "d = AList.update ''canonical_entry'' (VStr s)
                 (AList.update ''slug'' (VStr (c # cs)) (name_as_dict (people a) n))"
    by blast
  have "map_of d ''canonical_entry'' = Some (VStr s)"
    by (simp add: d_eq update_conv')
  moreover have "map_of d ''papers'' = None" "map_of d ''coauthors'' = None"
    "map_of d ''venues'' = None" "map_of d ''variant_entries'' = None"
    using assms(5) by (simp_all add: d_eq update_conv' aggregate_keys_def)
  ultimately show ?thesis
    using slug at s by blast
qed

theorem variant_record_shape_witness:
  "result (export_anthology ex_anthology ''out'' True ex_fs) = Inr ex_records
   \<and> unique_slugs (people ex_anthology)
   \<and> ''J. Doe'' \<in> set (names (people ex_anthology))
   \<and> \<not> is_canonical (people ex_anthology) ''J. Doe''
   \<and> list_all (\<lambda>k. map_of (name_as_dict (people ex_anthology) ''J. Doe'') k = None) aggregate_keys
   \<and> lookup2 (r_people ex_records) ''j'' ''j-doe''
        = Some [(''full'', VStr ''J. Doe''), (''slug'', VStr ''j-doe''),
                (''canonical_entry'', VStr ''jane-doe'')]"
proof -
  have h3: "''J. Doe'' \<in> set (names (people ex_anthology))"
    by (simp add: ex_anthology_def ex_people_def)
  have h4: "\<not> is_canonical (people ex_anthology) ''J. Doe''"
    by (simp add: ex_anthology_def ex_people_def)
  have h5: "list_all (\<lambda>k. map_of (name_as_dict (people ex_anthology) ''J. Doe'') k = None)
              aggregate_keys"
    by (simp add: ex_anthology_def ex_people_def aggregate_keys_def)
  then have h5': "\<forall>k \<in> set aggregate_keys.
                    map_of (name_as_dict (people ex_anthology) ''J. Doe'') k = None"
    by (simp add: list_all_iff)
  have l: "lookup2 (r_people ex_records) ''j'' ''j-doe''
        = Some [(''full'', VStr ''J. Doe''), (''slug'', VStr ''j-doe''),
                (''canonical_entry'', VStr ''jane-doe'')]"
    by code_simp
  show ?thesis
    using variant_record_shape[OF ex_export_dry ex_unique_slugs h3 h4 h5']
          ex_export_dry ex_unique_slugs h3 h4 h5 l
    by blast
qed

subsection \<open>When the indexes are built\<close>

lemma get_slugs_isl: "isl (get_slugs pi ns) \<longleftrightarrow> \<not> list_all (\<lambda>n. get_slug pi n \<noteq> None) ns"
  by (induction ns) (auto split: option.splits sum.splits)

lemma resolve_names_isl: "isl (resolve_names pi k d) \<longleftrightarrow> \<not> names_ok pi (map_of d k)"
proof (cases "map_of d k")
  case None
  then show ?thesis by (simp add: resolve_names_def names_ok_def)
next
  case (Some v)
  show ?thesis
  proof (cases v)
    case (VNames ns)
    with Some get_slugs_isl[of pi ns] show ?thesis
      by (cases "get_slugs pi ns") (simp_all add: resolve_names_def names_ok_def)
  qed (use Some in \<open>simp_all add: resolve_names_def names_ok_def\<close>)
qed

lemma paper_record_alt:
  "paper_record a p =
     (if map_of (as_dict p) ''xml_title'' = None then Inl KeyError
      else (case resolve_names (people a) ''author''
                  (move_html ''xml_abstract'' ''abstract_html'' (abstract_html p)
                    (move_html ''xml_booktitle'' ''booktitle_html'' (booktitle_html p)
                      (AList.delete ''xml_title''
                        (AList.update ''title_html'' (VStr (title_html p)) (as_dict p))))) of
              Inl e \<Rightarrow> Inl e
            | Inr d5 \<Rightarrow> resolve_names (people a) ''editor'' d5))"
  by (simp add: paper_record_def py_del_def Let_def update_conv')

lemma paper_record_isl: "isl (paper_record a p) \<longleftrightarrow> \<not> fields_ok (people a) (as_dict p)"
proof -
  define d4 where "d4 = move_html ''xml_abstract'' ''abstract_html'' (abstract_html p)
                    (move_html ''xml_booktitle'' ''booktitle_html'' (booktitle_html p)
                      (AList.delete ''xml_title''
                        (AList.update ''title_html'' (VStr (title_html p)) (as_dict p))))"
  have a4: "map_of d4 ''author'' = map_of (as_dict p) ''author''"
    and e4: "map_of d4 ''editor'' = map_of (as_dict p) ''editor''"
    unfolding d4_def by (simp_all add: map_of_move_html update_conv' delete_conv')
  have alt: "paper_record a p =
     (if map_of (as_dict p) ''xml_title'' = None then Inl KeyError
      else (case resolve_names (people a) ''author'' d4 of
              Inl e \<Rightarrow> Inl e
            | Inr d5 \<Rightarrow> resolve_names (people a) ''editor'' d5))"
    unfolding d4_def by (rule paper_record_alt)
  show ?thesis
  proof (cases "resolve_names (people a) ''author'' d4")
    case (Inl e)
    then have "isl (resolve_names (people a) ''author'' d4)" by simp
    then have "\<not> names_ok (people a) (map_of (as_dict p) ''author'')"
      by (simp add: resolve_names_isl a4)
    with Inl show ?thesis by (simp add: alt fields_ok_def)
  next
    case (Inr d5)
    then have "\<not> isl (resolve_names (people a) ''author'' d4)" by simp
    then have au: "names_ok (people a) (map_of (as_dict p) ''author'')"
      by (simp add: resolve_names_isl a4)
    have "map_of d5 ''editor'' = map_of (as_dict p) ''editor''"
      using resolve_names_other[OF Inr, of "''editor''"] e4 by simp
    then have "isl (resolve_names (people a) ''editor'' d5)
                 \<longleftrightarrow> \<not> names_ok (people a) (map_of (as_dict p) ''editor'')"
      by (simp add: resolve_names_isl)
    with Inr au show ?thesis by (auto simp add: alt fields_ok_def)
  qed
qed

lemma papers_loop_isl:
  "isl (papers_loop a ps idx) \<longleftrightarrow> \<not> list_all (\<lambda>kp. fields_ok (people a) (as_dict (snd kp))) ps"
proof (induction ps arbitrary: idx)
  case Nil
  then show ?case by simp
next
  case (Cons kp ps)
  obtain k p where kp: "kp = (k, p)" by (cases kp)
  show ?case
  proof (cases "paper_record a p")
    case (Inl e)
    with paper_record_isl[of a p] show ?thesis by (simp add: kp)
  next
    case (Inr d)
    with paper_record_isl[of a p] Cons.IH show ?thesis by (simp add: kp)
  qed
qed

lemma sorted_papers_isl:
  "isl (sorted_papers a ps) \<longleftrightarrow>
     \<not> (list_all (\<lambda>p. map_of (papers a) p \<noteq> None) ps
        \<and> (2 \<le> length ps \<longrightarrow> list_all (\<lambda>p. year_key a p \<noteq> None) ps))"
  by (auto simp: sorted_papers_def list_all_iff)

lemma coauthor_pairs_isl:
  "isl (coauthor_pairs pi cs) \<longleftrightarrow> \<not> list_all (\<lambda>c. get_slug pi (fst c) \<noteq> None) cs"
  by (induction cs) (auto split: option.splits sum.splits)

lemma canonical_fields_isl: "isl (canonical_fields a n d) \<longleftrightarrow> \<not> canonical_ok a n"
proof (cases "sorted_papers a (get_papers (people a) n)")
  case (Inl e)
  with sorted_papers_isl[of a "get_papers (people a) n"]
  show ?thesis by (auto simp: canonical_fields_def canonical_ok_def Let_def)
next
  case ps: (Inr ps)
  with sorted_papers_isl[of a "get_papers (people a) n"]
  have sp: "list_all (\<lambda>p. map_of (papers a) p \<noteq> None) (get_papers (people a) n)
        \<and> (2 \<le> length (get_papers (people a) n) \<longrightarrow>
             list_all (\<lambda>p. year_key a p \<noteq> None) (get_papers (people a) n))"
    by simp
  show ?thesis
  proof (cases "coauthor_pairs (people a) (get_coauthors (people a) n)")
    case (Inl e)
    with coauthor_pairs_isl[of "people a" "get_coauthors (people a) n"] ps
    show ?thesis by (auto simp: canonical_fields_def canonical_ok_def Let_def)
  next
    case cs: (Inr cs)
    with coauthor_pairs_isl[of "people a" "get_coauthors (people a) n"]
    have co: "list_all (\<lambda>c. get_slug (people a) (fst c) \<noteq> None) (get_coauthors (people a) n)"
      by simp
    show ?thesis
    proof (cases "has_variants (people a) n")
      case False
      with ps cs sp co show ?thesis
        by (simp add: canonical_fields_def canonical_ok_def Let_def)
    next
      case True
      with ps cs sp co get_slugs_isl[of "people a" "get_registered_variants (people a) n"]
      show ?thesis
        by (cases "get_slugs (people a) (get_registered_variants (people a) n)")
           (simp_all add: canonical_fields_def canonical_ok_def Let_def)
    qed
  qed
qed

lemma variant_fields_isl:
  "isl (variant_fields a n d) \<longleftrightarrow>
     get_slug (people a) (get_canonical_variant (people a) n) = None"
  by (simp add: variant_fields_def split: option.splits)

lemma person_record_ok:
  "(\<exists>c cs d. person_record a n = Inr (c # cs, d)) \<longleftrightarrow> person_ok a n"
proof (cases "get_slug (people a) n")
  case None
  then show ?thesis by (simp add: person_record_def person_ok_def)
next
  case (Some slug)
  show ?thesis
  proof (cases "is_canonical (people a) n")
    case True
    with Some canonical_fields_isl[of a n "AList.update ''slug'' (VStr slug) (name_as_dict (people a) n)"]
    show ?thesis
      by (cases "canonical_fields a n (AList.update ''slug'' (VStr slug) (name_as_dict (people a) n))";
          cases slug)
         (simp_all add: person_record_def person_ok_def Let_def)
  next
    case False
    with Some variant_fields_isl[of a n "AList.update ''slug'' (VStr slug) (name_as_dict (people a) n)"]
    show ?thesis
      by (cases "variant_fields a n (AList.update ''slug'' (VStr slug) (name_as_dict (people a) n))";
          cases slug)
         (simp_all add: person_record_def person_ok_def Let_def)
  qed
qed

lemma people_loop_isl: "isl (people_loop a ns idx) \<longleftrightarrow> \<not> list_all (person_ok a) ns"
proof (induction ns arbitrary: idx)
  case Nil
  then show ?case by simp
next
  case (Cons n ns)
  show ?case
  proof (cases "person_ok a n")
    case True
    then obtain c cs d where "person_record a n = Inr (c # cs, d)"
      using person_record_ok[of a n] by blast
    with True Cons.IH show ?thesis by simp
  next
    case False
    then have no: "\<And>c cs d. person_record a n \<noteq> Inr (c # cs, d)"
      using person_record_ok[of a n] by blast
    show ?thesis
    proof (cases "person_record a n")
      case (Inl e)
      with False show ?thesis by simp
    next
      case (Inr sd)
      obtain slug d where sd: "sd = (slug, d)" by (cases sd)
      with Inr no have "slug = []" by (cases slug) auto
      with Inr sd False show ?thesis by simp
    qed
  qed
qed

lemma volume_export_alt:
  "volume_export a v =
     (if map_of (attrib v) ''xml_title'' = None
      then (v\<lparr>attrib := AList.update ''title_html'' (VStr (vol_title_html v)) (attrib v)\<rparr>,
            Some KeyError)
      else (let d4 = AList.update ''papers'' (VStrs (paper_ids v))
                       (del_if_in ''xml_abstract''
                         (AList.delete ''xml_title''
                           (AList.update ''title_html'' (VStr (vol_title_html v)) (attrib v))))
            in case resolve_names (people a) ''author'' d4 of
                 Inl e \<Rightarrow> (v\<lparr>attrib := d4\<rparr>, Some e)
               | Inr d5 \<Rightarrow>
                   (case resolve_names (people a) ''editor'' d5 of
                      Inl e \<Rightarrow> (v\<lparr>attrib := d5\<rparr>, Some e)
                    | Inr d6 \<Rightarrow> (v\<lparr>attrib := d6\<rparr>, None))))"
  by (simp add: volume_export_def py_del_def Let_def update_conv')

lemma volume_export_ok:
  "snd (volume_export a v) = None \<longleftrightarrow> fields_ok (people a) (attrib v)"
proof -
  define d4 where "d4 = AList.update ''papers'' (VStrs (paper_ids v))
                       (del_if_in ''xml_abstract''
                         (AList.delete ''xml_title''
                           (AList.update ''title_html'' (VStr (vol_title_html v)) (attrib v))))"
  have a4: "map_of d4 ''author'' = map_of (attrib v) ''author''"
    and e4: "map_of d4 ''editor'' = map_of (attrib v) ''editor''"
    unfolding d4_def by (simp_all add: map_of_del_if_in update_conv' delete_conv')
  have alt: "volume_export a v =
     (if map_of (attrib v) ''xml_title'' = None
      then (v\<lparr>attrib := AList.update ''title_html'' (VStr (vol_title_html v)) (attrib v)\<rparr>,
            Some KeyError)
      else (case resolve_names (people a) ''author'' d4 of
                 Inl e \<Rightarrow> (v\<lparr>attrib := d4\<rparr>, Some e)
               | Inr d5 \<Rightarrow>
                   (case resolve_names (people a) ''editor'' d5 of
                      Inl e \<Rightarrow> (v\<lparr>attrib := d5\<rparr>, Some e)
                    | Inr d6 \<Rightarrow> (v\<lparr>attrib := d6\<rparr>, None))))"
    unfolding d4_def volume_export_alt Let_def ..
  show ?thesis
  proof (cases "resolve_names (people a) ''author'' d4")
    case (Inl e)
    then have "isl (resolve_names (people a) ''author'' d4)" by simp
    then have "\<not> names_ok (people a) (map_of (attrib v) ''author'')"
      by (simp add: resolve_names_isl a4)
    with Inl show ?thesis by (simp add: alt fields_ok_def)
  next
    case (Inr d5)
    then have "\<not> isl (resolve_names (people a) ''author'' d4)" by simp
    then have au: "names_ok (people a) (map_of (attrib v) ''author'')"
      by (simp add: resolve_names_isl a4)
    have "map_of d5 ''editor'' = map_of (attrib v) ''editor''"
      using resolve_names_other[OF Inr, of "''editor''"] e4 by simp
    then have ed: "isl (resolve_names (people a) ''editor'' d5)
                 \<longleftrightarrow> \<not> names_ok (people a) (map_of (attrib v) ''editor'')"
      by (simp add: resolve_names_isl)
    show ?thesis
      using Inr au ed
      by (cases "resolve_names (people a) ''editor'' d5") (auto simp add: alt fields_ok_def)
  qed
qed

lemma volumes_loop_isl:
  "isl (snd (volumes_loop a vs idx)) \<longleftrightarrow>
     \<not> list_all (\<lambda>kv. fields_ok (people a) (attrib (snd kv))) vs"
proof (induction vs arbitrary: idx)
  case Nil
  then show ?case by simp
next
  case (Cons kv vs)
  obtain k v where kv: "kv = (k, v)" by (cases kv)
  obtain v' e where ve: "volume_export a v = (v', e)" by (cases "volume_export a v")
  show ?case
  proof (cases e)
    case None
    with ve volume_export_ok[of a v] have ok: "fields_ok (people a) (attrib v)" by simp
    obtain rest' r where
      rest: "volumes_loop a vs (AList.update (vol_full_id v') (attrib v') idx) = (rest', r)"
      by (cases "volumes_loop a vs (AList.update (vol_full_id v') (attrib v') idx)")
    from Cons.IH[of "AList.update (vol_full_id v') (attrib v') idx"] rest
    have "isl r \<longleftrightarrow> \<not> list_all (\<lambda>kv. fields_ok (people a) (attrib (snd kv))) vs" by simp
    with ve None rest ok show ?thesis by (simp add: kv)
  next
    case (Some err)
    with ve volume_export_ok[of a v] have "\<not> fields_ok (people a) (attrib v)" by simp
    with ve Some show ?thesis by (simp add: kv)
  qed
qed

lemma stored_year_update:
  "stored_year (AList.update k d idx) k' = (if k' = k then map_of d ''year'' else stored_year idx k')"
  by (simp add: stored_year_def update_conv')

lemma volumes_loop_years:
  assumes "volumes_loop a vs idx = (vs', Inr idx')"
  shows "stored_year idx' k =
           (case map_of (rev (map (\<lambda>kv. (vol_full_id (snd kv), map_of (attrib (snd kv)) ''year'')) vs)) k of
              None \<Rightarrow> stored_year idx k
            | Some y \<Rightarrow> y)"
  using assms
proof (induction vs arbitrary: idx vs')
  case Nil
  then show ?case by simp
next
  case (Cons kv vs)
  obtain vid v where kv: "kv = (vid, v)" by (cases kv)
  from Cons.prems obtain v' rest' where
    v': "volume_export a v = (v', None)" and
    rest: "volumes_loop a vs (AList.update (vol_full_id v') (attrib v') idx) = (rest', Inr idx')"
    by (auto simp: kv split: prod.splits option.splits)
  have id: "vol_full_id v' = vol_full_id v"
    by (rule volume_export_fields(1)[OF v'])
  have yr: "map_of (attrib v') ''year'' = map_of (attrib v) ''year''"
    by (rule volume_export_fields(8)[OF v']) simp
  show ?case
    unfolding Cons.IH[OF rest]
    by (auto simp: kv id yr stored_year_update map_add_def split: option.splits)
qed

lemma build_volumes_years:
  assumes "snd (build_volumes a) = Inr idx"
  shows "stored_year idx = graph_year (volumes a)"
proof
  fix k
  obtain vs' where "volumes_loop a (volumes a) [] = (vs', Inr idx)"
    using assms by (cases "volumes_loop a (volumes a) []") (simp add: build_volumes_def)
  from volumes_loop_years[OF this, of k] show "stored_year idx k = graph_year (volumes a) k"
    by (simp add: graph_year_def stored_year_def split: option.splits)
qed

lemma filter_year_isl:
  "isl (filter_year vols yr ks) \<longleftrightarrow> \<not> list_all (\<lambda>k. stored_year vols k \<noteq> None) ks"
proof (cases "filter_year vols yr ks")
  case (Inl e)
  with filter_year_Inl[OF Inl] show ?thesis by (auto simp: list_all_iff)
next
  case (Inr r)
  with filter_year_Inr[OF Inr] show ?thesis by (auto simp: list_all_iff)
qed

lemma by_year_loop_isl:
  "isl (by_year_loop vols data ys acc) \<longleftrightarrow>
     ys \<noteq> [] \<and>
     (case map_of data ''volumes'' of
        None \<Rightarrow> True
      | Some vv \<Rightarrow>
          (case iter_strs vv of
             Inl e \<Rightarrow> True
           | Inr ks \<Rightarrow> \<not> list_all (\<lambda>k. stored_year vols k \<noteq> None) ks))"
proof (induction ys arbitrary: acc)
  case Nil
  then show ?case by simp
next
  case (Cons y ys)
  show ?case
  proof (cases "map_of data ''volumes''")
    case None
    then show ?thesis by (simp add: py_getitem_def)
  next
    case (Some vv)
    show ?thesis
    proof (cases "iter_strs vv")
      case (Inl e)
      with Some show ?thesis by (simp add: py_getitem_def)
    next
      case ks: (Inr ks)
      show ?thesis
      proof (cases "filter_year vols y ks")
        case (Inl e)
        with filter_year_isl[of vols y ks] Some ks show ?thesis
          by (simp add: py_getitem_def)
      next
        case (Inr r)
        with filter_year_isl[of vols y ks] Some ks Cons.IH[of "AList.update y (sort r) acc"]
        show ?thesis
          by (simp add: py_getitem_def)
      qed
    qed
  qed
qed

lemma venue_record_isl:
  "isl (venue_record vols data) \<longleftrightarrow> \<not> venue_ok (stored_year vols) data"
proof (cases "map_of data ''years''")
  case None
  then show ?thesis by (simp add: venue_record_def venue_ok_def py_getitem_def)
next
  case (Some yv)
  show ?thesis
  proof (cases "iter_strs yv")
    case (Inl e)
    with Some show ?thesis by (simp add: venue_record_def venue_ok_def py_getitem_def)
  next
    case ys: (Inr ys)
    have e: "sort ys = [] \<longleftrightarrow> ys = []"
      by (metis length_0_conv length_sort)
    show ?thesis
    proof (cases "by_year_loop vols data (sort ys) []")
      case (Inl err)
      with by_year_loop_isl[of vols data "sort ys" "[]"] Some ys show ?thesis
        by (auto simp add: venue_record_def venue_ok_def py_getitem_def e
                 split: option.splits sum.splits)
    next
      case (Inr by_year)
      with by_year_loop_isl[of vols data "sort ys" "[]"] Some ys show ?thesis
        by (auto simp add: venue_record_def venue_ok_def py_getitem_def py_del_def Let_def
                   update_conv' e
                 split: option.splits sum.splits)
    qed
  qed
qed

lemma venues_loop_isl:
  "isl (venues_loop vols vs idx) \<longleftrightarrow>
     \<not> list_all (\<lambda>kv. venue_ok (stored_year vols) (snd kv)) vs"
proof (induction vs arbitrary: idx)
  case Nil
  then show ?case by simp
next
  case (Cons kv vs)
  obtain k data where kv: "kv = (k, data)" by (cases kv)
  show ?case
  proof (cases "venue_record vols data")
    case (Inl e)
    with venue_record_isl[of vols data] show ?thesis by (simp add: kv)
  next
    case (Inr d)
    with venue_record_isl[of vols data] Cons.IH show ?thesis by (simp add: kv)
  qed
qed

lemma build_records_isl: "isl (snd (build_records a)) \<longleftrightarrow> \<not> lookups_ok a"
proof (cases "build_papers a")
  case (Inl e)
  with papers_loop_isl[of a "papers a" "[]"] show ?thesis
    by (simp add: build_records_def build_papers_def lookups_ok_def)
next
  case p: (Inr pidx)
  with papers_loop_isl[of a "papers a" "[]"]
  have pok: "list_all (\<lambda>kp. fields_ok (people a) (as_dict (snd kp))) (papers a)"
    by (simp add: build_papers_def)
  show ?thesis
  proof (cases "build_people a")
    case (Inl e)
    with people_loop_isl[of a "names (people a)" "[]"] p show ?thesis
      by (simp add: build_records_def build_people_def lookups_ok_def)
  next
    case q: (Inr qidx)
    with people_loop_isl[of a "names (people a)" "[]"]
    have qok: "list_all (person_ok a) (names (people a))"
      by (simp add: build_people_def)
    obtain vs rv where v: "build_volumes a = (vs, rv)" by (cases "build_volumes a")
    show ?thesis
    proof (cases rv)
      case (Inl e)
      with v volumes_loop_isl[of a "volumes a" "[]"] p q show ?thesis
        by (simp add: build_records_def build_volumes_def lookups_ok_def)
    next
      case vi: (Inr vidx)
      with v volumes_loop_isl[of a "volumes a" "[]"]
      have vok: "list_all (\<lambda>kv. fields_ok (people a) (attrib (snd kv))) (volumes a)"
        by (simp add: build_volumes_def)
      have yrs: "stored_year vidx = graph_year (volumes a)"
        by (rule build_volumes_years) (simp add: v vi)
      have "isl (build_venues (a\<lparr>volumes := vs\<rparr>) vidx) \<longleftrightarrow>
              \<not> list_all (\<lambda>kv. venue_ok (graph_year (volumes a)) (snd kv)) (venues a)"
        using venues_loop_isl[of vidx "venues a" "[]"] by (simp add: build_venues_def yrs)
      with p q v vi pok qok vok show ?thesis
        by (cases "build_venues (a\<lparr>volumes := vs\<rparr>) vidx")
           (simp_all add: build_records_def lookups_ok_def)
    qed
  qed
qed

subsection \<open>Failing and unchecked references\<close>

text \<open>
  C9 (as the claim states it, refuted). In this object graph the volume
  \<open>2020.acl-main\<close> lists the paper id \<open>2020.acl-main.99\<close>, which is no key of the paper
  collection, and the venue \<open>GHOST\<close>, which has no years, lists the volume id
  \<open>1999.ghost\<close>, which is no volume. The export returns all the same, and has written
  its files.
\<close>

theorem unchecked_references_export:
  "map_of (volumes ex_unchecked) ''2020.acl-main''
     = Some (ex_volume ''2020.acl-main'' ''2020'' [''2020.acl-main.99''])
   \<and> map_of (papers ex_unchecked) ''2020.acl-main.99'' = None
   \<and> map_of (venues ex_unchecked) ''GHOST''
       = Some [(''name'', VStr ''Ghost''), (''years'', VSet []), (''volumes'', VStrs [''1999.ghost''])]
   \<and> map_of (volumes ex_unchecked) ''1999.ghost'' = None
   \<and> \<not> isl (result (export_anthology ex_unchecked ''out'' False ex_fs))
   \<and> files (disk (export_anthology ex_unchecked ''out'' False ex_fs)) ''out/volumes.yaml'' \<noteq> None"
  by code_simp

text \<open>
  C9 (amended). The export checks nothing by itself; it fails where a lookup that it
  makes fails. \<open>lookups_ok\<close> lists these lookups: the raw title and the slugs of the
  authors and editors of every paper and volume, the non-empty slug of every name and,
  for a canonical name, its papers in the paper collection (with years, when there are
  two or more), the slugs of its coauthors and of its registered variants, for another
  name the slug of its canonical variant, and for every venue its \<open>years\<close> and
  \<open>volumes\<close> and, when it has a year, a stored year for each of its volume ids in the
  volume index. When one of them fails, the export raises and no file is written,
  with or without \<open>dryrun\<close>. When all of them succeed and the directories can be made,
  the dry run returns the record collections, and so does the run that writes, unless
  writing a file fails.
\<close>

theorem export_fails_iff_lookup_fails:
  "(\<not> lookups_ok a \<longrightarrow>
      (\<exists>e. result (export_anthology a outdir dryrun fs) = Inl e)
      \<and> files (disk (export_anthology a outdir dryrun fs)) = files fs)
   \<and> (lookups_ok a \<and> snd (make_dirs outdir ['''', ''papers'', ''people''] fs) = None \<longrightarrow>
        (\<exists>recs. result (export_anthology a outdir True fs) = Inr recs
           \<and> (result (export_anthology a outdir False fs) = Inr recs
              \<or> (\<exists>e. snd (dump_all outdir recs
                            (fst (make_dirs outdir ['''', ''papers'', ''people''] fs))) = Some e
                    \<and> result (export_anthology a outdir False fs) = Inl e))))"
proof (intro conjI impI)
  assume "\<not> lookups_ok a"
  then have "isl (snd (build_records a))" by (simp add: build_records_isl)
  then obtain e where e: "snd (build_records a) = Inl e"
    by (cases "snd (build_records a)") auto
  show "\<exists>e. result (export_anthology a outdir dryrun fs) = Inl e"
    using e by (rule export_failed_build_disk(2))
  obtain fs1 e1 where m: "make_dirs outdir ['''', ''papers'', ''people''] fs = (fs1, e1)"
    by (cases "make_dirs outdir ['''', ''papers'', ''people''] fs")
  from make_dirs_effect[OF m] have "files fs1 = files fs" by simp
  then show "files (disk (export_anthology a outdir dryrun fs)) = files fs"
    by (simp add: export_failed_build_disk(1)[OF e] m)
next
  assume h: "lookups_ok a \<and> snd (make_dirs outdir ['''', ''papers'', ''people''] fs) = None"
  then have "\<not> isl (snd (build_records a))" by (simp add: build_records_isl)
  then obtain recs where r: "snd (build_records a) = Inr recs"
    by (cases "snd (build_records a)") auto
  obtain a' where b: "build_records a = (a', Inr recs)"
    using r by (cases "build_records a") simp
  obtain fs1 where m: "make_dirs outdir ['''', ''papers'', ''people''] fs = (fs1, None)"
    using h by (cases "make_dirs outdir ['''', ''papers'', ''people''] fs") simp
  obtain fs2 e2 where d: "dump_all outdir recs fs1 = (fs2, e2)"
    by (cases "dump_all outdir recs fs1")
  have dry: "result (export_anthology a outdir True fs) = Inr recs"
    by (simp add: export_anthology_phases m b)
  have wet: "result (export_anthology a outdir False fs) = Inr recs
              \<or> (\<exists>e. snd (dump_all outdir recs
                            (fst (make_dirs outdir ['''', ''papers'', ''people''] fs))) = Some e
                    \<and> result (export_anthology a outdir False fs) = Inl e)"
    by (cases e2) (simp_all add: export_anthology_phases m b d)
  from dry wet
  show "\<exists>recs. result (export_anthology a outdir True fs) = Inr recs
           \<and> (result (export_anthology a outdir False fs) = Inr recs
              \<or> (\<exists>e. snd (dump_all outdir recs
                            (fst (make_dirs outdir ['''', ''papers'', ''people''] fs))) = Some e
                    \<and> result (export_anthology a outdir False fs) = Inl e))"
    by blast
qed

theorem export_fails_iff_lookup_fails_witness:
  "\<not> lookups_ok ex_unknown_author
   \<and> result (export_anthology ex_unknown_author ''out'' False ex_fs) = Inl KeyError
   \<and> files (disk (export_anthology ex_unknown_author ''out'' False ex_fs)) = files ex_fs
   \<and> \<not> lookups_ok ex_ghost_volume
   \<and> result (export_anthology ex_ghost_volume ''out'' False ex_fs) = Inl KeyError
   \<and> files (disk (export_anthology ex_ghost_volume ''out'' False ex_fs)) = files ex_fs
   \<and> lookups_ok ex_unchecked
   \<and> snd (make_dirs ''out'' ['''', ''papers'', ''people''] ex_fs) = None
   \<and> \<not> isl (result (export_anthology ex_unchecked ''out'' True ex_fs))"
proof -
  have n1: "\<not> lookups_ok ex_unknown_author" by code_simp
  have r1: "result (export_anthology ex_unknown_author ''out'' False ex_fs) = Inl KeyError"
    by code_simp
  have n2: "\<not> lookups_ok ex_ghost_volume" by code_simp
  have r2: "result (export_anthology ex_ghost_volume ''out'' False ex_fs) = Inl KeyError"
    by code_simp
  have o3: "lookups_ok ex_unchecked" by code_simp
  have m3: "snd (make_dirs ''out'' ['''', ''papers'', ''people''] ex_fs) = None" by code_simp
  show ?thesis
    using export_fails_iff_lookup_fails[of ex_unknown_author "''out''" False ex_fs]
          export_fails_iff_lookup_fails[of ex_ghost_volume "''out''" False ex_fs]
          export_fails_iff_lookup_fails[of ex_unchecked "''out''" True ex_fs]
          n1 r1 n2 r2 o3 m3
    by auto
qed

end
